theory Spec2Isabelle
  imports Main "HOL-Library.Word"
begin

section \<open>Data model of block/blk-throttle.c\<close>

text \<open>
  Machine types follow an LP64 kernel build: \<open>unsigned long\<close> and \<open>u64\<close> are 64 bits,
  \<open>unsigned int\<close> is 32 bits. \<open>jiffies\<close> and the tick rate \<open>HZ\<close> are read-only inputs of
  every function that uses them and are passed as the arguments \<open>now\<close> and \<open>hz\<close>.
  The structures are declared in block/blk-throttle.h, which is not among the sources; the
  records below hold the fields that the two source files read and write, with the widths
  that the accessors \<open>tg_prfill_conf_u64\<close> (bps) and \<open>tg_prfill_conf_uint\<close> (iops) and
  the local variables of the functions fix.
\<close>

type_synonym u64 = "64 word"
type_synonym u32 = "32 word"
type_synonym ulong = "64 word"

type_synonym tg_id = nat
type_synonym queue_id = nat
type_synonym bio_ptr = nat

text \<open>What stops the kernel instead of returning: a \<open>BUG_ON\<close> that fires, a dereference of a
  null (or never assigned) pointer, a division by zero, and, for the one unbounded loop of
  the model, running out of fuel.\<close>

datatype fault = BugOn | NullDeref | DivByZero | OutOfFuel

text \<open>The index of the per-direction arrays: READ = 0, WRITE = 1, RANDW = 2.\<close>

datatype dir = READ | WRITE | RANDW

text \<open>
  Several helpers declare their direction parameter as \<open>bool rw\<close>
  (\<open>throtl_slice_used\<close>, \<open>throtl_start_new_slice\<close>, \<open>throtl_extend_slice\<close>,
  \<open>throtl_set_slice_end\<close>). The kernel's \<open>bool\<close> is C's \<open>_Bool\<close>, so an argument RANDW (2)
  arrives as \<open>true\<close> and indexes element 1. \<open>bool_ix\<close> is that conversion.
\<close>

fun bool_ix :: "dir \<Rightarrow> dir" where
  "bool_ix READ = READ"
| "bool_ix WRITE = WRITE"
| "bool_ix RANDW = WRITE"

datatype req_flag = REQ_WRITE | REQ_THROTTLED

text \<open>A bio as far as the throttling code reads it: the flag word \<open>bi_rw\<close> (as the set of
  the flags that are set) and \<open>bi_iter.bi_size\<close>. Bios are shared between the caller and the
  queues, so queues hold pointers and the store holds the bios.\<close>

record bio =
  bi_rw :: "req_flag set"
  bi_size :: u32

definition bio_data_dir :: "bio \<Rightarrow> dir" where
  "bio_data_dir b = (if REQ_WRITE \<in> bi_rw b then WRITE else READ)"

datatype qn_kind = OnSelf | OnParent

text \<open>A qnode is addressed by its owning group (\<open>qn->tg\<close>), the array it sits in and the
  direction; \<open>qn_linked\<close> is \<open>!list_empty(&qn->node)\<close>.\<close>

type_synonym qnode_ref = "tg_id \<times> qn_kind \<times> dir"

record throtl_qnode =
  qn_bios :: "bio_ptr list"
  qn_linked :: bool

datatype sq_ref = TgSq tg_id | TdSq queue_id

text \<open>The red-black tree \<open>pending_tree\<close> is kept as its in-order sequence of groups;
  \<open>pending_timer\<close> is \<open>None\<close> while the timer is not armed, else its expiry.\<close>

record throtl_service_queue =
  parent_sq :: "sq_ref option"
  queued :: "dir \<Rightarrow> qnode_ref list"
  nr_queued :: "dir \<Rightarrow> u32"
  pending_tree :: "tg_id list"
  first_pending :: "tg_id option"
  nr_pending :: u32
  first_pending_disptime :: ulong
  pending_timer :: "ulong option"

datatype tg_flag = THROTL_TG_PENDING | THROTL_TG_WAS_EMPTY

text \<open>\<open>blkg_refs\<close> counts the references that \<open>blkg_get\<close> and \<open>blkg_put\<close> take and drop on
  the group's \<open>blkcg_gq\<close>; \<open>stats_cpu\<close> is the per-cpu statistics block (bytes and ios per
  direction), \<open>None\<close> until the allocation worker has provided it.\<close>

record throtl_grp =
  service_queue :: throtl_service_queue
  qnode_on_self :: "dir \<Rightarrow> throtl_qnode"
  qnode_on_parent :: "dir \<Rightarrow> throtl_qnode"
  tg_td :: "queue_id option"
  flags :: "tg_flag set"
  has_rules :: "dir \<Rightarrow> bool"
  bps :: "dir \<Rightarrow> u64"
  iops :: "dir \<Rightarrow> u32"
  bytes_disp :: "dir \<Rightarrow> u64"
  io_disp :: "dir \<Rightarrow> u32"
  slice_start :: "dir \<Rightarrow> ulong"
  slice_end :: "dir \<Rightarrow> ulong"
  disptime :: ulong
  fake :: bool
  blkg_refs :: int
  stats_cpu :: "((dir \<Rightarrow> u64) \<times> (dir \<Rightarrow> u64)) option"

record throtl_data =
  td_service_queue :: throtl_service_queue
  td_nr_queued :: "dir \<Rightarrow> u32"

text \<open>A fake device: its header group and the list of members, each a request queue with
  the member's own group. The \<open>next\<close>-linked lists of the source are HOL lists, a null
  pointer is \<open>None\<close>.\<close>

record fake_device_member =
  m_queue :: queue_id
  m_tg :: tg_id

record fake_device =
  fd_ident :: u32
  fd_tg :: tg_id
  fd_members :: "fake_device_member list"

text \<open>The store: every group, every per-device \<open>throtl_data\<close> and every bio by its
  address.\<close>

record throtl_state =
  tgs :: "tg_id \<Rightarrow> throtl_grp"
  tds :: "queue_id \<Rightarrow> throtl_data"
  bios :: "bio_ptr \<Rightarrow> bio"

definition get_sq :: "throtl_state \<Rightarrow> sq_ref \<Rightarrow> throtl_service_queue" where
  "get_sq s r = (case r of TgSq i \<Rightarrow> service_queue (tgs s i)
                         | TdSq q \<Rightarrow> td_service_queue (tds s q))"

definition set_sq :: "throtl_state \<Rightarrow> sq_ref \<Rightarrow> throtl_service_queue \<Rightarrow> throtl_state" where
  "set_sq s r sq = (case r of
       TgSq i \<Rightarrow> s\<lparr>tgs := (tgs s)(i := (tgs s i)\<lparr>service_queue := sq\<rparr>)\<rparr>
     | TdSq q \<Rightarrow> s\<lparr>tds := (tds s)(q := (tds s q)\<lparr>td_service_queue := sq\<rparr>)\<rparr>)"

definition get_qn :: "throtl_state \<Rightarrow> qnode_ref \<Rightarrow> throtl_qnode" where
  "get_qn s r = (case r of (i, k, d) \<Rightarrow>
       (case k of OnSelf \<Rightarrow> qnode_on_self (tgs s i) d
                | OnParent \<Rightarrow> qnode_on_parent (tgs s i) d))"

definition set_qn :: "throtl_state \<Rightarrow> qnode_ref \<Rightarrow> throtl_qnode \<Rightarrow> throtl_state" where
  "set_qn s r qn = (case r of (i, k, d) \<Rightarrow>
       (case k of
          OnSelf \<Rightarrow> s\<lparr>tgs := (tgs s)(i := (tgs s i)\<lparr>qnode_on_self := (qnode_on_self (tgs s i))(d := qn)\<rparr>)\<rparr>
        | OnParent \<Rightarrow> s\<lparr>tgs := (tgs s)(i := (tgs s i)\<lparr>qnode_on_parent := (qnode_on_parent (tgs s i))(d := qn)\<rparr>)\<rparr>))"

definition upd_tg :: "throtl_state \<Rightarrow> tg_id \<Rightarrow> (throtl_grp \<Rightarrow> throtl_grp) \<Rightarrow> throtl_state" where
  "upd_tg s i f = s\<lparr>tgs := (tgs s)(i := f (tgs s i))\<rparr>"

section \<open>Qnodes and the round-robin pop\<close>

text \<open>\<open>blkg_get(tg_to_blkg(tg))\<close> and \<open>blkg_put(tg_to_blkg(tg))\<close>.\<close>

definition blkg_get :: "throtl_state \<Rightarrow> tg_id \<Rightarrow> throtl_state" where
  "blkg_get s i = upd_tg s i (\<lambda>tg. tg\<lparr>blkg_refs := blkg_refs tg + 1\<rparr>)"

definition blkg_put :: "throtl_state \<Rightarrow> tg_id \<Rightarrow> throtl_state" where
  "blkg_put s i = upd_tg s i (\<lambda>tg. tg\<lparr>blkg_refs := blkg_refs tg - 1\<rparr>)"

text \<open>\<open>list_add_tail(&qn->node, queued)\<close> for the list \<open>queued[d]\<close> of the service queue
  \<open>sqr\<close>.\<close>

definition link_qnode_tail :: "throtl_state \<Rightarrow> qnode_ref \<Rightarrow> sq_ref \<Rightarrow> dir \<Rightarrow> throtl_state" where
  "link_qnode_tail s qr sqr d =
     (let s1 = set_qn s qr ((get_qn s qr)\<lparr>qn_linked := True\<rparr>);
          sq = get_sq s1 sqr
      in set_sq s1 sqr (sq\<lparr>queued := (queued sq)(d := queued sq d @ [qr])\<rparr>))"

definition throtl_qnode_add_bio ::
  "throtl_state \<Rightarrow> bio_ptr \<Rightarrow> qnode_ref \<Rightarrow> sq_ref \<Rightarrow> dir \<Rightarrow> throtl_state" where
  "throtl_qnode_add_bio s b qr sqr d =
     (let was_unlinked = \<not> qn_linked (get_qn s qr);
          s1 = set_qn s qr ((get_qn s qr)\<lparr>qn_bios := qn_bios (get_qn s qr) @ [b]\<rparr>)
      in if was_unlinked then blkg_get (link_qnode_tail s1 qr sqr d) (fst qr) else s1)"

definition throtl_qnode_add_bio_withoutblkg ::
  "throtl_state \<Rightarrow> bio_ptr \<Rightarrow> qnode_ref \<Rightarrow> sq_ref \<Rightarrow> dir \<Rightarrow> throtl_state" where
  "throtl_qnode_add_bio_withoutblkg s b qr sqr d =
     (let was_unlinked = \<not> qn_linked (get_qn s qr);
          s1 = set_qn s qr ((get_qn s qr)\<lparr>qn_bios := qn_bios (get_qn s qr) @ [b]\<rparr>)
      in if was_unlinked then link_qnode_tail s1 qr sqr d else s1)"

text \<open>\<open>bio_list_peek\<close> and \<open>bio_list_pop\<close>: the head of the list, or null.\<close>

definition bio_list_peek :: "bio_ptr list \<Rightarrow> bio_ptr option" where
  "bio_list_peek bs = (case bs of [] \<Rightarrow> None | b # _ \<Rightarrow> Some b)"

definition throtl_peek_queued :: "throtl_state \<Rightarrow> sq_ref \<Rightarrow> dir \<Rightarrow> bio_ptr option" where
  "throtl_peek_queued s sqr d =
     (case queued (get_sq s sqr) d of
        [] \<Rightarrow> None
      | qr # _ \<Rightarrow> bio_list_peek (qn_bios (get_qn s qr)))"

text \<open>
  \<open>throtl_pop_queued(queued, tg_to_put)\<close> on the list \<open>queued[d]\<close> of \<open>sqr\<close>. The argument
  \<open>want_put\<close> says whether the caller passed a non-null \<open>tg_to_put\<close>. The result is the
  popped bio, the value stored through \<open>tg_to_put\<close> (if any) and the new state.
\<close>

definition throtl_pop_queued ::
  "throtl_state \<Rightarrow> sq_ref \<Rightarrow> dir \<Rightarrow> bool \<Rightarrow> bio_ptr option \<times> tg_id option \<times> throtl_state" where
  "throtl_pop_queued s sqr d want_put =
     (case queued (get_sq s sqr) d of
        [] \<Rightarrow> (None, None, s)
      | qr # rest \<Rightarrow>
          (let qn = get_qn s qr;
               b = bio_list_peek (qn_bios qn);
               bs' = tl (qn_bios qn)
           in if bs' = [] then
                (let s1 = set_qn s qr (qn\<lparr>qn_bios := bs', qn_linked := False\<rparr>);
                     sq = get_sq s1 sqr;
                     s2 = set_sq s1 sqr (sq\<lparr>queued := (queued sq)(d := rest)\<rparr>)
                 in if want_put then (b, Some (fst qr), s2)
                    else if \<not> fake (tgs s2 (fst qr)) then (b, None, blkg_put s2 (fst qr))
                    else (b, None, s2))
              else
                (let s1 = set_qn s qr (qn\<lparr>qn_bios := bs'\<rparr>);
                     sq = get_sq s1 sqr;
                     s2 = set_sq s1 sqr (sq\<lparr>queued := (queued sq)(d := rest @ [qr])\<rparr>)
                 in (b, None, s2))))"

section \<open>Time, slices and the token bucket\<close>

text \<open>
  Modelled from the spec: the jiffies comparisons and \<open>roundup\<close> are macros of
  include/linux/jiffies.h and include/linux/kernel.h, which are not among the sources.
  The spec only says that a slice is a window between two monotonic-tick timestamps; the
  definitions are the kernel's wrap-safe ones, a comparison of the signed difference:
  \<open>time_after(a,b)\<close> is \<open>(long)(b - a) < 0\<close>, \<open>time_after_eq(a,b)\<close> is
  \<open>(long)(a - b) >= 0\<close>, \<open>time_in_range(a,b,c)\<close> is
  \<open>time_after_eq(a,b) && time_before_eq(a,c)\<close>, and \<open>roundup(x,y)\<close> is
  \<open>((x + (y - 1)) / y) * y\<close>.
\<close>

definition time_after :: "ulong \<Rightarrow> ulong \<Rightarrow> bool" where
  "time_after a b = (sint (b - a) < 0)"

definition time_before :: "ulong \<Rightarrow> ulong \<Rightarrow> bool" where
  "time_before a b = time_after b a"

definition time_after_eq :: "ulong \<Rightarrow> ulong \<Rightarrow> bool" where
  "time_after_eq a b = (0 \<le> sint (a - b))"

definition time_before_eq :: "ulong \<Rightarrow> ulong \<Rightarrow> bool" where
  "time_before_eq a b = time_after_eq b a"

definition time_in_range :: "ulong \<Rightarrow> ulong \<Rightarrow> ulong \<Rightarrow> bool" where
  "time_in_range a b c = (time_after_eq a b \<and> time_before_eq a c)"

definition roundup :: "ulong \<Rightarrow> ulong \<Rightarrow> ulong" where
  "roundup x y = ((x + (y - 1)) div y) * y"

text \<open>
  \<open>HZ\<close> is a constant of the kernel configuration (a positive \<open>int\<close>), not fixed by the
  sources; it is the argument \<open>hz\<close>. \<open>throtl_slice = HZ/10\<close>. Every division by \<open>HZ\<close> or
  by \<open>throtl_slice\<close> is written with HOL's \<open>div\<close>, which agrees with C as long as
  \<open>10 \<le> hz\<close>; the theorems assume that.
\<close>

definition throtl_slice :: "nat \<Rightarrow> ulong" where
  "throtl_slice hz = of_nat (hz div 10)"

definition throtl_start_new_slice :: "nat \<Rightarrow> ulong \<Rightarrow> throtl_grp \<Rightarrow> dir \<Rightarrow> throtl_grp" where
  "throtl_start_new_slice hz now tg rw =
     (let i = bool_ix rw in
      tg\<lparr>bytes_disp := (bytes_disp tg)(i := 0),
         io_disp := (io_disp tg)(i := 0),
         slice_start := (slice_start tg)(i := now),
         slice_end := (slice_end tg)(i := now + throtl_slice hz)\<rparr>)"

definition throtl_set_slice_end :: "nat \<Rightarrow> throtl_grp \<Rightarrow> dir \<Rightarrow> ulong \<Rightarrow> throtl_grp" where
  "throtl_set_slice_end hz tg rw jiffy_end =
     tg\<lparr>slice_end := (slice_end tg)(bool_ix rw := roundup jiffy_end (throtl_slice hz))\<rparr>"

definition throtl_extend_slice :: "nat \<Rightarrow> throtl_grp \<Rightarrow> dir \<Rightarrow> ulong \<Rightarrow> throtl_grp" where
  "throtl_extend_slice hz tg rw jiffy_end =
     tg\<lparr>slice_end := (slice_end tg)(bool_ix rw := roundup jiffy_end (throtl_slice hz))\<rparr>"

definition throtl_slice_used :: "ulong \<Rightarrow> throtl_grp \<Rightarrow> dir \<Rightarrow> bool" where
  "throtl_slice_used now tg rw =
     (\<not> time_in_range now (slice_start tg (bool_ix rw)) (slice_end tg (bool_ix rw)))"

text \<open>
  \<open>throtl_trim_slice(tg, rw)\<close>, with \<open>unsigned int rw\<close>: the arrays are indexed by \<open>rw\<close>
  itself, the two helpers it calls take \<open>rw\<close> as a \<open>bool\<close>. \<open>bytes_trim\<close> is computed in
  \<open>u64\<close>, \<open>io_trim\<close> in \<open>unsigned long\<close> (the \<open>unsigned int\<close> limit is widened by the
  multiplication with \<open>throtl_slice\<close>).
\<close>

definition throtl_trim_slice :: "nat \<Rightarrow> ulong \<Rightarrow> throtl_grp \<Rightarrow> dir \<Rightarrow> fault + throtl_grp" where
  "throtl_trim_slice hz now tg rw =
     (if time_before (slice_end tg rw) (slice_start tg rw) then Inl BugOn
      else if throtl_slice_used now tg rw then Inr tg
      else
        (let tg1 = throtl_set_slice_end hz tg rw (now + throtl_slice hz);
             time_elapsed = now - slice_start tg1 rw;
             nr_slices = time_elapsed div throtl_slice hz
         in if nr_slices = 0 then Inr tg1
            else
              (let bytes_trim = (bps tg1 rw * throtl_slice hz * nr_slices) div of_nat hz;
                   io_trim = ((ucast (iops tg1 rw) :: ulong) * throtl_slice hz * nr_slices)
                               div of_nat hz
               in if bytes_trim = 0 \<and> io_trim = 0 then Inr tg1
                  else Inr (tg1\<lparr>
                    bytes_disp := (bytes_disp tg1)(rw :=
                       (if bytes_trim \<le> bytes_disp tg1 rw then bytes_disp tg1 rw - bytes_trim
                        else 0)),
                    io_disp := (io_disp tg1)(rw :=
                       (if io_trim \<le> ucast (io_disp tg1 rw)
                        then ucast ((ucast (io_disp tg1 rw) :: ulong) - io_trim) else 0)),
                    slice_start := (slice_start tg1)(rw :=
                       slice_start tg1 rw + nr_slices * throtl_slice hz)\<rparr>))))"

text \<open>
  One of the two blocks of \<open>tg_with_in_bps_limit\<close>, for the limit of index \<open>d\<close> (the bio's
  direction in the first block, RANDW in the second): \<open>None\<close> when the bio fits the bytes
  allowed so far, else the \<open>jiffy_wait\<close> the block computes. \<open>div64_u64\<close> by a zero limit
  is a division by zero.
\<close>

definition bps_block :: "nat \<Rightarrow> ulong \<Rightarrow> throtl_grp \<Rightarrow> bio \<Rightarrow> dir \<Rightarrow> fault + ulong option" where
  "bps_block hz now tg b d =
     (let jiffy_elapsed = now - slice_start tg d;
          jiffy_elapsed_rnd =
            roundup (if jiffy_elapsed = 0 then throtl_slice hz else jiffy_elapsed) (throtl_slice hz);
          bytes_allowed = (bps tg d * jiffy_elapsed_rnd) div of_nat hz
      in if bytes_disp tg d + ucast (bi_size b) \<le> bytes_allowed then Inr None
         else if bps tg d = 0 then Inl DivByZero
         else
           (let extra_bytes = bytes_disp tg d + ucast (bi_size b) - bytes_allowed;
                jiffy_wait = (extra_bytes * of_nat hz) div bps tg d;
                jiffy_wait1 = (if jiffy_wait = 0 then 1 else jiffy_wait)
            in Inr (Some (jiffy_wait1 + (jiffy_elapsed_rnd - jiffy_elapsed)))))"

text \<open>\<open>tg_with_in_bps_limit(tg, bio, wait)\<close>; \<open>wait\<close> is the value \<open>*wait\<close> holds on entry,
  the result is the return value and \<open>*wait\<close> on exit.\<close>

definition tg_with_in_bps_limit ::
  "nat \<Rightarrow> ulong \<Rightarrow> throtl_grp \<Rightarrow> bio \<Rightarrow> ulong \<Rightarrow> fault + (bool \<times> ulong)" where
  "tg_with_in_bps_limit hz now tg b wait =
     (let rw = bio_data_dir b in
      case (if bps tg rw \<noteq> - 1
            then (case bps_block hz now tg b rw of
                    Inl f \<Rightarrow> Inl f
                  | Inr None \<Rightarrow> Inr 0
                  | Inr (Some jw) \<Rightarrow> Inr jw)
            else Inr wait) of
        Inl f \<Rightarrow> Inl f
      | Inr w1 \<Rightarrow>
          (case (if bps tg RANDW \<noteq> - 1
                 then (case bps_block hz now tg b RANDW of
                         Inl f \<Rightarrow> Inl f
                       | Inr None \<Rightarrow> Inr (if bps tg rw = - 1 then 0 else w1)
                       | Inr (Some jw) \<Rightarrow> Inr (if bps tg rw \<noteq> - 1 then max w1 jw else jw))
                 else Inr w1) of
             Inl f \<Rightarrow> Inl f
           | Inr w2 \<Rightarrow> Inr (w2 = 0, w2)))"

text \<open>
  One block of \<open>tg_with_in_iops_limit\<close>. \<open>io_allowed\<close>, \<open>io_disp + 1\<close> and
  \<open>((io_disp + 1) * HZ) / iops + 1\<close> are \<open>unsigned int\<close> computations; the product
  \<open>(u64)iops * jiffy_elapsed_rnd\<close> is 64 bits wide.
\<close>

definition iops_block :: "nat \<Rightarrow> ulong \<Rightarrow> throtl_grp \<Rightarrow> dir \<Rightarrow> fault + ulong option" where
  "iops_block hz now tg d =
     (let jiffy_elapsed = now - slice_start tg d;
          jiffy_elapsed_rnd =
            roundup (if jiffy_elapsed = 0 then throtl_slice hz else jiffy_elapsed) (throtl_slice hz);
          tmp = ((ucast (iops tg d) :: u64) * jiffy_elapsed_rnd) div of_nat hz;
          io_allowed = (if tmp > 0xFFFFFFFF then (0xFFFFFFFF :: u32) else ucast tmp)
      in if io_disp tg d + 1 \<le> io_allowed then Inr None
         else if iops tg d = 0 then Inl DivByZero
         else
           (let jiffy_wait = (ucast (((io_disp tg d + 1) * of_nat hz) div iops tg d + 1) :: ulong)
            in Inr (Some (if jiffy_wait > jiffy_elapsed then jiffy_wait - jiffy_elapsed else 1))))"

definition tg_with_in_iops_limit ::
  "nat \<Rightarrow> ulong \<Rightarrow> throtl_grp \<Rightarrow> bio \<Rightarrow> ulong \<Rightarrow> fault + (bool \<times> ulong)" where
  "tg_with_in_iops_limit hz now tg b wait =
     (let rw = bio_data_dir b in
      case (if iops tg rw \<noteq> - 1
            then (case iops_block hz now tg rw of
                    Inl f \<Rightarrow> Inl f
                  | Inr None \<Rightarrow> Inr 0
                  | Inr (Some jw) \<Rightarrow> Inr jw)
            else Inr wait) of
        Inl f \<Rightarrow> Inl f
      | Inr w1 \<Rightarrow>
          (case (if iops tg RANDW \<noteq> - 1
                 then (case iops_block hz now tg RANDW of
                         Inl f \<Rightarrow> Inl f
                       | Inr None \<Rightarrow> Inr (if iops tg rw = - 1 then 0 else w1)
                       | Inr (Some jw) \<Rightarrow> Inr (if iops tg rw \<noteq> - 1 then max w1 jw else jw))
                 else Inr w1) of
             Inl f \<Rightarrow> Inl f
           | Inr w2 \<Rightarrow> Inr (w2 = 0, w2)))"

text \<open>The renewal of one slice at the head of \<open>tg_may_dispatch\<close>: \<open>d\<close> is the bio's direction
  in the first statement and RANDW in the second. The test of \<open>slice_end\<close> indexes the array
  with \<open>d\<close>; the three helpers take it as a \<open>bool\<close>.\<close>

definition renew_slice :: "nat \<Rightarrow> ulong \<Rightarrow> throtl_grp \<Rightarrow> dir \<Rightarrow> throtl_grp" where
  "renew_slice hz now tg d =
     (if throtl_slice_used now tg d then throtl_start_new_slice hz now tg d
      else if time_before (slice_end tg d) (now + throtl_slice hz)
           then throtl_extend_slice hz tg d (now + throtl_slice hz)
           else tg)"

text \<open>The tail of \<open>tg_may_dispatch\<close> on rejection.\<close>

definition reject_extend :: "nat \<Rightarrow> ulong \<Rightarrow> throtl_grp \<Rightarrow> dir \<Rightarrow> ulong \<Rightarrow> throtl_grp" where
  "reject_extend hz now tg rw max_wait =
     (let tg1 = (if time_before (slice_end tg rw) (now + max_wait)
                 then throtl_extend_slice hz tg rw (now + max_wait) else tg)
      in if time_before (slice_end tg1 RANDW) (now + max_wait)
         then throtl_extend_slice hz tg1 RANDW (now + max_wait) else tg1)"

text \<open>\<open>tg_may_dispatch(tg, bio, wait)\<close>: the return value, the value written to \<open>*wait\<close>
  (when the caller passes one) and the group with its slices updated.\<close>

definition tg_may_dispatch ::
  "nat \<Rightarrow> ulong \<Rightarrow> throtl_grp \<Rightarrow> bio \<Rightarrow> fault + (bool \<times> ulong \<times> throtl_grp)" where
  "tg_may_dispatch hz now tg b =
     (let rw = bio_data_dir b in
      if bps tg rw = - 1 \<and> iops tg rw = - 1 \<and> bps tg RANDW = - 1 \<and> iops tg RANDW = - 1
      then Inr (True, 0, tg)
      else
        (let tg2 = renew_slice hz now (renew_slice hz now tg rw) RANDW in
         case tg_with_in_bps_limit hz now tg2 b 0 of
           Inl f \<Rightarrow> Inl f
         | Inr (bps_ok, bps_wait) \<Rightarrow>
             if bps_ok then
               (case tg_with_in_iops_limit hz now tg2 b 0 of
                  Inl f \<Rightarrow> Inl f
                | Inr (iops_ok, iops_wait) \<Rightarrow>
                    if iops_ok then Inr (True, 0, tg2)
                    else Inr (False, max bps_wait iops_wait,
                              reject_extend hz now tg2 rw (max bps_wait iops_wait)))
             else Inr (False, max bps_wait 0, reject_extend hz now tg2 rw (max bps_wait 0))))"

text \<open>\<open>throtl_charge_bio(tg, bio)\<close>: the group charged and the bio marked.\<close>

definition throtl_charge_bio :: "throtl_grp \<Rightarrow> bio \<Rightarrow> throtl_grp \<times> bio" where
  "throtl_charge_bio tg b =
     (let rw = bio_data_dir b;
          bd1 = (bytes_disp tg)(rw := bytes_disp tg rw + ucast (bi_size b));
          bd2 = bd1(RANDW := bd1 RANDW + ucast (bi_size b));
          io1 = (io_disp tg)(rw := io_disp tg rw + 1);
          io2 = io1(RANDW := io1 RANDW + 1)
      in (tg\<lparr>bytes_disp := bd2, io_disp := io2\<rparr>,
          b\<lparr>bi_rw := insert REQ_THROTTLED (bi_rw b)\<rparr>))"

section \<open>Service queues and the pending tree\<close>

text \<open>
  \<open>sq_to_tg(sq)\<close>: the group a service queue is embedded in, null for a null \<open>sq\<close> and for
  a queue without parent. The queue embedded in a \<open>throtl_data\<close> is initialised with a null
  parent by \<open>blk_throtl_init\<close> and no code assigns it another, so for it the result is null.
\<close>

definition sq_to_tg :: "throtl_state \<Rightarrow> sq_ref option \<Rightarrow> tg_id option" where
  "sq_to_tg s sq =
     (case sq of
        None \<Rightarrow> None
      | Some r \<Rightarrow>
          (if parent_sq (get_sq s r) \<noteq> None
           then (case r of TgSq i \<Rightarrow> Some i | TdSq q \<Rightarrow> None)
           else None))"

text \<open>\<open>rb_first\<close> of the tree: its leftmost node.\<close>

definition rb_first :: "tg_id list \<Rightarrow> tg_id option" where
  "rb_first tree = (case tree of [] \<Rightarrow> None | x # _ \<Rightarrow> Some x)"

definition throtl_rb_first :: "throtl_state \<Rightarrow> sq_ref \<Rightarrow> tg_id option \<times> throtl_state" where
  "throtl_rb_first s psq =
     (let sq = get_sq s psq in
      if nr_pending sq = 0 then (None, s)
      else
        (let sq1 = (if first_pending sq = None
                    then sq\<lparr>first_pending := rb_first (pending_tree sq)\<rparr> else sq)
         in (first_pending sq1, set_sq s psq sq1)))"

definition update_min_dispatch_time :: "throtl_state \<Rightarrow> sq_ref \<Rightarrow> throtl_state" where
  "update_min_dispatch_time s psq =
     (case throtl_rb_first s psq of
        (None, s1) \<Rightarrow> s1
      | (Some t, s1) \<Rightarrow>
          set_sq s1 psq ((get_sq s1 psq)\<lparr>first_pending_disptime := disptime (tgs s1 t)\<rparr>))"

text \<open>The descent of \<open>tg_service_queue_add\<close> on the in-order sequence: the new node goes
  left of the first node whose \<open>disptime\<close> is after the key, and right of every node it
  is not before.\<close>

fun tree_insert :: "(tg_id \<Rightarrow> ulong) \<Rightarrow> ulong \<Rightarrow> tg_id \<Rightarrow> tg_id list \<Rightarrow> tg_id list" where
  "tree_insert dt key x [] = [x]"
| "tree_insert dt key x (y # ys) =
     (if time_before key (dt y) then x # y # ys else y # tree_insert dt key x ys)"

text \<open>\<open>tg_service_queue_add(tg)\<close> followed by the rest of \<open>__throtl_enqueue_tg(tg)\<close>. A group
  whose service queue has no parent makes the code dereference a null pointer.\<close>

definition throtl_enqueue_tg_always :: "throtl_state \<Rightarrow> tg_id \<Rightarrow> fault + throtl_state" where
  "throtl_enqueue_tg_always s i =
     (case parent_sq (service_queue (tgs s i)) of
        None \<Rightarrow> Inl NullDeref
      | Some psq \<Rightarrow>
          (let sq = get_sq s psq;
               key = disptime (tgs s i);
               left = (case pending_tree sq of
                         [] \<Rightarrow> True
                       | y # _ \<Rightarrow> time_before key (disptime (tgs s y)));
               sq1 = sq\<lparr>pending_tree := tree_insert (\<lambda>j. disptime (tgs s j)) key i (pending_tree sq),
                        first_pending := (if left then Some i else first_pending sq)\<rparr>;
               s1 = set_sq s psq sq1;
               s2 = upd_tg s1 i (\<lambda>tg. tg\<lparr>flags := insert THROTL_TG_PENDING (flags tg)\<rparr>);
               sq2 = get_sq s2 psq
           in Inr (set_sq s2 psq (sq2\<lparr>nr_pending := nr_pending sq2 + 1\<rparr>))))"

definition throtl_enqueue_tg :: "throtl_state \<Rightarrow> tg_id \<Rightarrow> fault + throtl_state" where
  "throtl_enqueue_tg s i =
     (if THROTL_TG_PENDING \<notin> flags (tgs s i) then throtl_enqueue_tg_always s i else Inr s)"

text \<open>\<open>__throtl_dequeue_tg(tg)\<close>: \<open>throtl_rb_erase\<close> and the flag.\<close>

definition throtl_dequeue_tg_always :: "throtl_state \<Rightarrow> tg_id \<Rightarrow> fault + throtl_state" where
  "throtl_dequeue_tg_always s i =
     (case parent_sq (service_queue (tgs s i)) of
        None \<Rightarrow> Inl NullDeref
      | Some psq \<Rightarrow>
          (let sq = get_sq s psq;
               sq1 = sq\<lparr>first_pending := (if first_pending sq = Some i then None else first_pending sq),
                        pending_tree := remove1 i (pending_tree sq),
                        nr_pending := nr_pending sq - 1\<rparr>;
               s1 = set_sq s psq sq1
           in Inr (upd_tg s1 i (\<lambda>tg. tg\<lparr>flags := flags tg - {THROTL_TG_PENDING}\<rparr>))))"

definition throtl_dequeue_tg :: "throtl_state \<Rightarrow> tg_id \<Rightarrow> fault + throtl_state" where
  "throtl_dequeue_tg s i =
     (if THROTL_TG_PENDING \<in> flags (tgs s i) then throtl_dequeue_tg_always s i else Inr s)"

text \<open>\<open>throtl_schedule_pending_timer(sq, expires)\<close> is \<open>mod_timer\<close>; the trace message is
  left out.\<close>

definition throtl_schedule_pending_timer :: "throtl_state \<Rightarrow> sq_ref \<Rightarrow> ulong \<Rightarrow> throtl_state" where
  "throtl_schedule_pending_timer s sq expires =
     set_sq s sq ((get_sq s sq)\<lparr>pending_timer := Some expires\<rparr>)"

definition throtl_schedule_next_dispatch ::
  "ulong \<Rightarrow> throtl_state \<Rightarrow> sq_ref \<Rightarrow> bool \<Rightarrow> bool \<times> throtl_state" where
  "throtl_schedule_next_dispatch now s sq force =
     (if nr_pending (get_sq s sq) = 0 then (True, s)
      else
        (let s1 = update_min_dispatch_time s sq in
         if force \<or> time_after (first_pending_disptime (get_sq s1 sq)) now
         then (True, throtl_schedule_pending_timer s1 sq (first_pending_disptime (get_sq s1 sq)))
         else (False, s1)))"

section \<open>Fake devices\<close>

fun queue_to_fd_member :: "fake_device_member list \<Rightarrow> queue_id \<Rightarrow> fake_device_member option" where
  "queue_to_fd_member [] q = None"
| "queue_to_fd_member (m # ms) q = (if m_queue m = q then Some m else queue_to_fd_member ms q)"

fun queue_in_fake_d :: "fake_device_member list \<Rightarrow> queue_id \<Rightarrow> bool" where
  "queue_in_fake_d [] q = False"
| "queue_in_fake_d (m # ms) q = (if m_queue m = q then True else queue_in_fake_d ms q)"

definition fake_d_has_limit :: "throtl_state \<Rightarrow> fake_device \<Rightarrow> dir \<Rightarrow> queue_id \<Rightarrow> bool" where
  "fake_d_has_limit s fd rw q =
     (if queue_in_fake_d (fd_members fd) q then has_rules (tgs s (fd_tg fd)) rw else False)"

text \<open>The inner \<open>while\<close> of \<open>update_fd_queuenr\<close>: it adds the members' \<open>nr_queued[rw]\<close> to the
  running \<open>total\<close> (here \<open>tot\<close>).\<close>

fun sum_members_queued :: "throtl_state \<Rightarrow> fake_device_member list \<Rightarrow> dir \<Rightarrow> u32 \<Rightarrow> u32" where
  "sum_members_queued s [] rw tot = tot"
| "sum_members_queued s (m # ms) rw tot =
     sum_members_queued s ms rw (tot + nr_queued (service_queue (tgs s (m_tg m))) rw)"

text \<open>One round of the \<open>for\<close> loop of \<open>update_fd_queuenr\<close>, from the value \<open>total\<close> has when
  the round starts: the new state and the value of \<open>total\<close> when the round ends.\<close>

definition fd_queuenr_round ::
  "throtl_state \<Rightarrow> fake_device \<Rightarrow> dir \<Rightarrow> u32 \<Rightarrow> throtl_state \<times> u32" where
  "fd_queuenr_round s fd rw tot =
     (let tot1 = sum_members_queued s (fd_members fd) rw tot;
          sq = service_queue (tgs s (fd_tg fd))
      in if tot1 \<le> nr_queued sq rw
         then (set_sq s (TgSq (fd_tg fd)) (sq\<lparr>nr_queued := (nr_queued sq)(rw := tot1)\<rparr>), tot1)
         else (s, tot1))"

text \<open>\<open>update_fd_queuenr(fake_d)\<close>: \<open>total\<close> is set to 0 once, in its declaration, before
  the loop over READ and WRITE.\<close>

definition update_fd_queuenr :: "throtl_state \<Rightarrow> fake_device \<Rightarrow> throtl_state" where
  "update_fd_queuenr s fd =
     (case fd_queuenr_round s fd READ 0 of
        (s1, tot1) \<Rightarrow> fst (fd_queuenr_round s1 fd WRITE tot1))"

section \<open>The composition of waits, in the spec's words\<close>

text \<open>
  What one limit contributes to the wait: 0 when the limit is absent (-1) or the bio fits,
  else the \<open>jiffy_wait\<close> its block computes. The BPS component is the maximum over the bio's
  direction and RANDW, and so is the IOPS component. A bio satisfies a limit when the limit
  is absent or its block finds the bio within what is allowed.
\<close>

definition limit_wait :: "bool \<Rightarrow> fault + ulong option \<Rightarrow> ulong" where
  "limit_wait limited r = (if limited then (case r of Inr (Some jw) \<Rightarrow> jw | _ \<Rightarrow> 0) else 0)"

definition bps_component :: "nat \<Rightarrow> ulong \<Rightarrow> throtl_grp \<Rightarrow> bio \<Rightarrow> ulong" where
  "bps_component hz now tg b =
     max (limit_wait (bps tg (bio_data_dir b) \<noteq> - 1) (bps_block hz now tg b (bio_data_dir b)))
         (limit_wait (bps tg RANDW \<noteq> - 1) (bps_block hz now tg b RANDW))"

definition iops_component :: "nat \<Rightarrow> ulong \<Rightarrow> throtl_grp \<Rightarrow> bio \<Rightarrow> ulong" where
  "iops_component hz now tg b =
     max (limit_wait (iops tg (bio_data_dir b) \<noteq> - 1) (iops_block hz now tg (bio_data_dir b)))
         (limit_wait (iops tg RANDW \<noteq> - 1) (iops_block hz now tg RANDW))"

definition bps_fits :: "nat \<Rightarrow> ulong \<Rightarrow> throtl_grp \<Rightarrow> bio \<Rightarrow> dir \<Rightarrow> bool" where
  "bps_fits hz now tg b d = (bps tg d = - 1 \<or> bps_block hz now tg b d = Inr None)"

definition iops_fits :: "nat \<Rightarrow> ulong \<Rightarrow> throtl_grp \<Rightarrow> dir \<Rightarrow> bool" where
  "iops_fits hz now tg d = (iops tg d = - 1 \<or> iops_block hz now tg d = Inr None)"

text \<open>The fast path of \<open>tg_may_dispatch\<close> applies when no limit does; otherwise the checks
  run on the group with both slices renewed.\<close>

definition unlimited :: "throtl_grp \<Rightarrow> bio \<Rightarrow> bool" where
  "unlimited tg b =
     (bps tg (bio_data_dir b) = - 1 \<and> iops tg (bio_data_dir b) = - 1 \<and>
      bps tg RANDW = - 1 \<and> iops tg RANDW = - 1)"

definition renewed :: "nat \<Rightarrow> ulong \<Rightarrow> throtl_grp \<Rightarrow> bio \<Rightarrow> throtl_grp" where
  "renewed hz now tg b = renew_slice hz now (renew_slice hz now tg (bio_data_dir b)) RANDW"

section \<open>has_rules\<close>

text \<open>\<open>tg_update_has_rules(tg)\<close>: the parent group is \<open>sq_to_tg(tg->service_queue.parent_sq)\<close>;
  its \<open>has_rules[]\<close> is read, the group's own is written.\<close>

definition tg_update_has_rules :: "throtl_state \<Rightarrow> tg_id \<Rightarrow> throtl_state" where
  "tg_update_has_rules s i =
     (let parent_tg = sq_to_tg s (parent_sq (service_queue (tgs s i))) in
      upd_tg s i (\<lambda>tg. tg\<lparr>has_rules := (\<lambda>rw.
         (case parent_tg of None \<Rightarrow> False | Some p \<Rightarrow> has_rules (tgs s p) rw) \<or>
         (bps tg rw \<noteq> - 1 \<or> iops tg rw \<noteq> - 1))\<rparr>))"

text \<open>
  The loop of \<open>tg_set_conf\<close>,
  \<open>blkg_for_each_descendant_pre(blkg, pos_css, ctx.blkg) tg_update_has_rules(blkg_to_tg(blkg))\<close>,
  and the single call of \<open>throtl_pd_online\<close>: the groups are visited in the order of the
  list, which for \<open>tg_set_conf\<close> is the pre-order sequence of the configured group and its
  descendants.
\<close>

fun has_rules_walk :: "throtl_state \<Rightarrow> tg_id list \<Rightarrow> throtl_state" where
  "has_rules_walk s [] = s"
| "has_rules_walk s (i # rest) = has_rules_walk (tg_update_has_rules s i) rest"

text \<open>\<open>tg_fd_update_has_rules_recursively(fake_d)\<close>: the header's flags from its own limits,
  then every member gets the header's limits and the flags that follow from them.\<close>

fun fd_members_copy_rules :: "throtl_state \<Rightarrow> tg_id \<Rightarrow> fake_device_member list \<Rightarrow> throtl_state" where
  "fd_members_copy_rules s h [] = s"
| "fd_members_copy_rules s h (m # ms) =
     fd_members_copy_rules
       (upd_tg s (m_tg m) (\<lambda>tg. tg\<lparr>bps := bps (tgs s h), iops := iops (tgs s h),
           has_rules := (\<lambda>rw. bps (tgs s h) rw \<noteq> - 1 \<or> iops (tgs s h) rw \<noteq> - 1)\<rparr>))
       h ms"

definition tg_fd_update_has_rules_recursively :: "throtl_state \<Rightarrow> fake_device \<Rightarrow> throtl_state" where
  "tg_fd_update_has_rules_recursively s fd =
     fd_members_copy_rules
       (upd_tg s (fd_tg fd) (\<lambda>tg. tg\<lparr>has_rules := (\<lambda>rw. bps tg rw \<noteq> - 1 \<or> iops tg rw \<noteq> - 1)\<rparr>))
       (fd_tg fd) (fd_members fd)"

text \<open>
  The claim's side: a group has a finite limit for \<open>rw\<close> when its \<open>bps\<close> or \<open>iops\<close> is not
  -1; \<open>limit_on_path s rw i\<close> says that group \<open>i\<close> or one of its ancestors, following the
  parent links up to the device root, has one. \<open>rules_ok\<close> is the claim for one group, and
  \<open>own_ok\<close> its form for a group without ancestors.
\<close>

definition parent_tg :: "throtl_state \<Rightarrow> tg_id \<Rightarrow> tg_id option" where
  "parent_tg s i = sq_to_tg s (parent_sq (service_queue (tgs s i)))"

definition tg_has_limit :: "throtl_grp \<Rightarrow> dir \<Rightarrow> bool" where
  "tg_has_limit tg rw = (bps tg rw \<noteq> - 1 \<or> iops tg rw \<noteq> - 1)"

inductive limit_on_path :: "throtl_state \<Rightarrow> dir \<Rightarrow> tg_id \<Rightarrow> bool" for s rw where
  own: "tg_has_limit (tgs s i) rw \<Longrightarrow> limit_on_path s rw i"
| up: "parent_tg s i = Some p \<Longrightarrow> limit_on_path s rw p \<Longrightarrow> limit_on_path s rw i"

definition rules_ok :: "throtl_state \<Rightarrow> tg_id \<Rightarrow> bool" where
  "rules_ok s i = (\<forall>rw. has_rules (tgs s i) rw \<longleftrightarrow> limit_on_path s rw i)"

definition own_ok :: "throtl_state \<Rightarrow> tg_id \<Rightarrow> bool" where
  "own_ok s i = (\<forall>rw. has_rules (tgs s i) rw \<longleftrightarrow> tg_has_limit (tgs s i) rw)"

section \<open>The bio path: blk_throtl_bio\<close>

text \<open>
  \<open>throtl_update_dispatch_stats\<close>: nothing without a statistics block, else one io and the
  bio's bytes are added for the bio's direction (the split of \<open>blkg_rwstat_add\<close> into
  sync and async counts is not modelled). The per-cpu blocks are one block here.
\<close>

definition throtl_update_dispatch_stats :: "throtl_state \<Rightarrow> tg_id \<Rightarrow> bio \<Rightarrow> throtl_state" where
  "throtl_update_dispatch_stats s i b =
     (case stats_cpu (tgs s i) of
        None \<Rightarrow> s
      | Some (service_bytes, serviced) \<Rightarrow>
          (let d = bio_data_dir b in
           upd_tg s i (\<lambda>tg. tg\<lparr>stats_cpu :=
             Some (service_bytes(d := service_bytes d + ucast (bi_size b)),
                   serviced(d := serviced d + 1))\<rparr>)))"

text \<open>\<open>throtl_charge_bio\<close> on the store, and \<open>throtl_charge_bio_recursively\<close>: the header of
  the fake device first, then every member.\<close>

definition charge_tg :: "throtl_state \<Rightarrow> tg_id \<Rightarrow> bio_ptr \<Rightarrow> throtl_state" where
  "charge_tg s i bp =
     (case throtl_charge_bio (tgs s i) (bios s bp) of
        (tg', b') \<Rightarrow> s\<lparr>tgs := (tgs s)(i := tg'), bios := (bios s)(bp := b')\<rparr>)"

fun charge_members :: "throtl_state \<Rightarrow> fake_device_member list \<Rightarrow> bio_ptr \<Rightarrow> throtl_state" where
  "charge_members s [] bp = s"
| "charge_members s (m # ms) bp = charge_members (charge_tg s (m_tg m) bp) ms bp"

definition throtl_charge_bio_recursively :: "throtl_state \<Rightarrow> fake_device \<Rightarrow> bio_ptr \<Rightarrow> throtl_state" where
  "throtl_charge_bio_recursively s fd bp =
     charge_members (charge_tg s (fd_tg fd) bp) (fd_members fd) bp"

text \<open>\<open>throtl_trim_slice\<close> on the store, \<open>throtl_trim_slice_recursively\<close>, and the pairs
  of guarded calls \<open>if (tg->has_rules[rw]) trim(rw); if (tg->has_rules[RANDW]) trim(RANDW);\<close>
  for a group and for a fake device (guarded by the header's flags).\<close>

definition trim_tg :: "nat \<Rightarrow> ulong \<Rightarrow> throtl_state \<Rightarrow> tg_id \<Rightarrow> dir \<Rightarrow> fault + throtl_state" where
  "trim_tg hz now s i rw =
     (case throtl_trim_slice hz now (tgs s i) rw of
        Inl f \<Rightarrow> Inl f
      | Inr tg' \<Rightarrow> Inr (s\<lparr>tgs := (tgs s)(i := tg')\<rparr>))"

fun trim_members ::
  "nat \<Rightarrow> ulong \<Rightarrow> throtl_state \<Rightarrow> fake_device_member list \<Rightarrow> dir \<Rightarrow> fault + throtl_state" where
  "trim_members hz now s [] rw = Inr s"
| "trim_members hz now s (m # ms) rw =
     (case trim_tg hz now s (m_tg m) rw of
        Inl f \<Rightarrow> Inl f
      | Inr s1 \<Rightarrow> trim_members hz now s1 ms rw)"

definition throtl_trim_slice_recursively ::
  "nat \<Rightarrow> ulong \<Rightarrow> throtl_state \<Rightarrow> fake_device \<Rightarrow> dir \<Rightarrow> fault + throtl_state" where
  "throtl_trim_slice_recursively hz now s fd rw =
     (case trim_tg hz now s (fd_tg fd) rw of
        Inl f \<Rightarrow> Inl f
      | Inr s1 \<Rightarrow> trim_members hz now s1 (fd_members fd) rw)"

definition trim_tg_rules :: "nat \<Rightarrow> ulong \<Rightarrow> throtl_state \<Rightarrow> tg_id \<Rightarrow> dir \<Rightarrow> fault + throtl_state" where
  "trim_tg_rules hz now s i rw =
     (case (if has_rules (tgs s i) rw then trim_tg hz now s i rw else Inr s) of
        Inl f \<Rightarrow> Inl f
      | Inr s1 \<Rightarrow> if has_rules (tgs s1 i) RANDW then trim_tg hz now s1 i RANDW else Inr s1)"

definition trim_fd_rules ::
  "nat \<Rightarrow> ulong \<Rightarrow> throtl_state \<Rightarrow> fake_device \<Rightarrow> dir \<Rightarrow> fault + throtl_state" where
  "trim_fd_rules hz now s fd rw =
     (case (if has_rules (tgs s (fd_tg fd)) rw
            then throtl_trim_slice_recursively hz now s fd rw else Inr s) of
        Inl f \<Rightarrow> Inl f
      | Inr s1 \<Rightarrow> if has_rules (tgs s1 (fd_tg fd)) RANDW
                  then throtl_trim_slice_recursively hz now s1 fd RANDW else Inr s1)"

text \<open>\<open>throtl_add_bio_tg(bio, qn, tg)\<close> and \<open>throtl_add_bio_fd_tg(bio, fake_d, q)\<close>. The second
  reads \<open>fake_d->tg\<close> first, marks the header, looks the queue's member up
  (\<open>BUG_ON(!fd_member)\<close>), appends the bio to the member's own qnode without taking a
  reference, counts it on the member and on the header and makes the member pending.\<close>

definition mark_was_empty :: "throtl_state \<Rightarrow> tg_id \<Rightarrow> dir \<Rightarrow> throtl_state" where
  "mark_was_empty s i rw =
     (if nr_queued (service_queue (tgs s i)) rw = 0
      then upd_tg s i (\<lambda>tg. tg\<lparr>flags := insert THROTL_TG_WAS_EMPTY (flags tg)\<rparr>) else s)"

definition inc_nr_queued :: "throtl_state \<Rightarrow> tg_id \<Rightarrow> dir \<Rightarrow> throtl_state" where
  "inc_nr_queued s i rw =
     (let sq = get_sq s (TgSq i)
      in set_sq s (TgSq i) (sq\<lparr>nr_queued := (nr_queued sq)(rw := nr_queued sq rw + 1)\<rparr>))"

definition throtl_add_bio_tg ::
  "throtl_state \<Rightarrow> bio_ptr \<Rightarrow> qnode_ref option \<Rightarrow> tg_id \<Rightarrow> fault + throtl_state" where
  "throtl_add_bio_tg s bp qn i =
     (let rw = bio_data_dir (bios s bp);
          qr = (case qn of None \<Rightarrow> (i, OnSelf, rw) | Some r \<Rightarrow> r);
          s1 = mark_was_empty s i rw;
          s2 = throtl_qnode_add_bio s1 bp qr (TgSq i) rw;
          s3 = inc_nr_queued s2 i rw
      in throtl_enqueue_tg s3 i)"

definition throtl_add_bio_fd_tg ::
  "throtl_state \<Rightarrow> bio_ptr \<Rightarrow> fake_device option \<Rightarrow> queue_id \<Rightarrow> fault + throtl_state" where
  "throtl_add_bio_fd_tg s bp fake_d q =
     (case fake_d of
        None \<Rightarrow> Inl NullDeref
      | Some fd \<Rightarrow>
          (let rw = bio_data_dir (bios s bp);
               s1 = mark_was_empty s (fd_tg fd) rw
           in case queue_to_fd_member (fd_members fd) q of
                None \<Rightarrow> Inl BugOn
              | Some m \<Rightarrow>
                  (let i = m_tg m;
                       s2 = throtl_qnode_add_bio_withoutblkg s1 bp (i, OnSelf, rw) (TgSq i) rw;
                       s3 = inc_nr_queued s2 i rw;
                       s4 = inc_nr_queued s3 (fd_tg fd) rw
                   in throtl_enqueue_tg s4 i)))"

text \<open>\<open>tg_update_disptime(tg)\<close> and \<open>tg_update_disptime_recursively(fake_d)\<close>. \<open>peek_wait\<close> is
  one \<open>if ((bio = throtl_peek_queued(..))) tg_may_dispatch(tg, bio, &wait)\<close>, from the value
  \<open>wait\<close> has before; \<open>set_disptime\<close> is the dequeue, assignment, enqueue and flag reset that
  both functions end with.\<close>

definition peek_wait ::
  "nat \<Rightarrow> ulong \<Rightarrow> throtl_state \<Rightarrow> tg_id \<Rightarrow> dir \<Rightarrow> ulong \<Rightarrow> fault + (ulong \<times> throtl_state)" where
  "peek_wait hz now s i d w0 =
     (case throtl_peek_queued s (TgSq i) d of
        None \<Rightarrow> Inr (w0, s)
      | Some bp \<Rightarrow>
          (case tg_may_dispatch hz now (tgs s i) (bios s bp) of
             Inl f \<Rightarrow> Inl f
           | Inr (ok, w, tg') \<Rightarrow> Inr (w, s\<lparr>tgs := (tgs s)(i := tg')\<rparr>)))"

definition set_disptime :: "throtl_state \<Rightarrow> tg_id \<Rightarrow> ulong \<Rightarrow> fault + throtl_state" where
  "set_disptime s i t =
     (case throtl_dequeue_tg s i of
        Inl f \<Rightarrow> Inl f
      | Inr s1 \<Rightarrow>
          (case throtl_enqueue_tg (upd_tg s1 i (\<lambda>tg. tg\<lparr>disptime := t\<rparr>)) i of
             Inl f \<Rightarrow> Inl f
           | Inr s2 \<Rightarrow>
               Inr (upd_tg s2 i (\<lambda>tg. tg\<lparr>flags := flags tg - {THROTL_TG_WAS_EMPTY}\<rparr>))))"

definition tg_update_disptime :: "nat \<Rightarrow> ulong \<Rightarrow> throtl_state \<Rightarrow> tg_id \<Rightarrow> fault + throtl_state" where
  "tg_update_disptime hz now s i =
     (case peek_wait hz now s i READ (- 1) of
        Inl f \<Rightarrow> Inl f
      | Inr (read_wait, s1) \<Rightarrow>
          (case peek_wait hz now s1 i WRITE (- 1) of
             Inl f \<Rightarrow> Inl f
           | Inr (write_wait, s2) \<Rightarrow> set_disptime s2 i (now + min read_wait write_wait)))"

fun members_min_wait ::
  "nat \<Rightarrow> ulong \<Rightarrow> throtl_state \<Rightarrow> fake_device_member list \<Rightarrow> ulong \<Rightarrow> ulong \<Rightarrow> ulong
     \<Rightarrow> fault + (ulong \<times> throtl_state)" where
  "members_min_wait hz now s [] read_wait write_wait min_wait = Inr (min_wait, s)"
| "members_min_wait hz now s (m # ms) read_wait write_wait min_wait =
     (case peek_wait hz now s (m_tg m) READ read_wait of
        Inl f \<Rightarrow> Inl f
      | Inr (read_wait1, s1) \<Rightarrow>
          (case peek_wait hz now s1 (m_tg m) WRITE write_wait of
             Inl f \<Rightarrow> Inl f
           | Inr (write_wait1, s2) \<Rightarrow>
               members_min_wait hz now s2 ms read_wait1 write_wait1
                 (min write_wait1 (min read_wait1 min_wait))))"

fun members_set_disptime ::
  "throtl_state \<Rightarrow> fake_device_member list \<Rightarrow> ulong \<Rightarrow> fault + throtl_state" where
  "members_set_disptime s [] t = Inr s"
| "members_set_disptime s (m # ms) t =
     (case set_disptime s (m_tg m) t of
        Inl f \<Rightarrow> Inl f
      | Inr s1 \<Rightarrow> members_set_disptime s1 ms t)"

definition tg_update_disptime_recursively ::
  "nat \<Rightarrow> ulong \<Rightarrow> throtl_state \<Rightarrow> fake_device \<Rightarrow> fault + throtl_state" where
  "tg_update_disptime_recursively hz now s fd =
     (case members_min_wait hz now s (fd_members fd) (- 1) (- 1) (- 1) of
        Inl f \<Rightarrow> Inl f
      | Inr (min_wait, s1) \<Rightarrow>
          (let s2 = upd_tg s1 (fd_tg fd) (\<lambda>tg. tg\<lparr>disptime := now + min_wait,
                      flags := flags tg - {THROTL_TG_WAS_EMPTY}\<rparr>)
           in members_set_disptime s2 (fd_members fd) (now + min_wait)))"

text \<open>\<open>throtl_schedule_next_dispatch(tg->service_queue.parent_sq, true)\<close> as the callers in
  \<open>blk_throtl_bio\<close> use it: a null parent is dereferenced.\<close>

definition schedule_parent :: "ulong \<Rightarrow> throtl_state \<Rightarrow> tg_id \<Rightarrow> fault + throtl_state" where
  "schedule_parent now s i =
     (case parent_sq (service_queue (tgs s i)) of
        None \<Rightarrow> Inl NullDeref
      | Some psq \<Rightarrow> Inr (snd (throtl_schedule_next_dispatch now s psq True)))"

text \<open>
  What \<open>blk_throtl_bio\<close> takes from outside the two source files: the results of the two
  group lookups (\<open>throtl_lookup_tg\<close> under RCU and \<open>throtl_lookup_create_tg\<close> under the
  queue lock, null when the group does not exist or the queue is dying), the list of fake
  devices \<open>blkcg->fd_head\<close> of the bio's control group, and the content of the local
  variable \<open>fake_d\<close> before anything is assigned to it (the variable has no initialiser;
  \<open>None\<close> stands for every value that cannot be dereferenced).
\<close>

record bio_env =
  env_lookup_tg :: "tg_id option"
  env_lookup_create_tg :: "tg_id option"
  env_fd_head :: "fake_device list"
  env_fake_d_uninit :: "fake_device option"

text \<open>The label \<open>out\<close>: a bio that is not throttled leaves with REQ_THROTTLED cleared.\<close>

definition throtl_out :: "throtl_state \<Rightarrow> bio_ptr \<Rightarrow> bool \<Rightarrow> bool \<times> throtl_state" where
  "throtl_out s bp throttled =
     (throttled,
      if \<not> throttled
      then s\<lparr>bios := (bios s)(bp := (bios s bp)\<lparr>bi_rw := bi_rw (bios s bp) - {REQ_THROTTLED}\<rparr>)\<rparr>
      else s)"

text \<open>The loop of the lockless fast path that looks for a fake device with rules for this
  queue: the value of \<open>without_limit\<close> when the loop ends.\<close>

fun fds_without_limit ::
  "throtl_state \<Rightarrow> fake_device list \<Rightarrow> queue_id \<Rightarrow> dir \<Rightarrow> bool \<Rightarrow> bool" where
  "fds_without_limit s [] q rw without_limit = without_limit"
| "fds_without_limit s (fd # fds) q rw without_limit =
     fds_without_limit s fds q rw
       (if queue_in_fake_d (fd_members fd) q \<and>
           (fake_d_has_limit s fd rw q \<or> fake_d_has_limit s fd RANDW q)
        then False else without_limit)"

text \<open>The loop over the group and its ancestors. It ends at a group that must queue the
  bio (\<open>Some\<close> of it) or above the top-level group (\<open>None\<close>); \<open>qn\<close> is the local of that name.
  The hierarchy is not known to be acyclic from the store alone, so the loop carries
  fuel.\<close>

fun climb_tgs ::
  "nat \<Rightarrow> nat \<Rightarrow> ulong \<Rightarrow> throtl_state \<Rightarrow> bio_ptr \<Rightarrow> tg_id \<Rightarrow> qnode_ref option
     \<Rightarrow> fault + (tg_id option \<times> qnode_ref option \<times> throtl_state)" where
  "climb_tgs 0 hz now s bp i qn = Inl OutOfFuel"
| "climb_tgs (Suc fuel) hz now s bp i qn =
     (let rw = bio_data_dir (bios s bp) in
      if nr_queued (service_queue (tgs s i)) rw \<noteq> 0 then Inr (Some i, qn, s)
      else
        (case tg_may_dispatch hz now (tgs s i) (bios s bp) of
           Inl f \<Rightarrow> Inl f
         | Inr (ok, w, tg') \<Rightarrow>
             (let s1 = s\<lparr>tgs := (tgs s)(i := tg')\<rparr> in
              if \<not> ok then Inr (Some i, qn, s1)
              else
                (case trim_tg_rules hz now (charge_tg s1 i bp) i rw of
                   Inl f \<Rightarrow> Inl f
                 | Inr s3 \<Rightarrow>
                     (case sq_to_tg s3 (parent_sq (service_queue (tgs s3 i))) of
                        None \<Rightarrow> Inr (None, Some (i, OnParent, rw), s3)
                      | Some p \<Rightarrow> climb_tgs fuel hz now s3 bp p (Some (i, OnParent, rw)))))))"

text \<open>The code after the loop, "out-of-limit, queue to @tg", up to the label
  \<open>fake_device_check\<close>; \<open>fake_d\<close> is whatever the local holds at that point.\<close>

definition queue_out_of_limit ::
  "nat \<Rightarrow> ulong \<Rightarrow> throtl_state \<Rightarrow> queue_id \<Rightarrow> bio_ptr \<Rightarrow> tg_id \<Rightarrow> fake_device option
     \<Rightarrow> fault + throtl_state" where
  "queue_out_of_limit hz now s q bp i fake_d =
     (let rw = bio_data_dir (bios s bp) in
      case tg_td (tgs s i) of
        None \<Rightarrow> Inl NullDeref
      | Some dq \<Rightarrow>
          (let s1 = s\<lparr>tds := (tds s)(dq := (tds s dq)\<lparr>td_nr_queued :=
                        (td_nr_queued (tds s dq))(rw := td_nr_queued (tds s dq) rw + 1)\<rparr>)\<rparr>
           in case throtl_add_bio_fd_tg s1 bp fake_d q of
                Inl f \<Rightarrow> Inl f
              | Inr s2 \<Rightarrow>
                  if THROTL_TG_WAS_EMPTY \<in> flags (tgs s2 i)
                  then (case tg_update_disptime hz now s2 i of
                          Inl f \<Rightarrow> Inl f
                        | Inr s3 \<Rightarrow> schedule_parent now s3 i)
                  else Inr s2))"

text \<open>\<open>fake_device_check\<close> for a bio the group itself has throttled: it is charged to every
  fake device that holds the queue and has rules for the direction.\<close>

fun charge_fds ::
  "throtl_state \<Rightarrow> fake_device list \<Rightarrow> queue_id \<Rightarrow> bio_ptr \<Rightarrow> dir \<Rightarrow> throtl_state" where
  "charge_fds s [] q bp rw = s"
| "charge_fds s (fd # fds) q bp rw =
     charge_fds
       (if queue_in_fake_d (fd_members fd) q \<and> fake_d_has_limit s fd rw q
        then throtl_charge_bio_recursively s fd bp else s)
       fds q bp rw"

text \<open>\<open>fake_device_check\<close> for a bio that passed the groups: the \<open>while (true)\<close> loop over the
  fake devices. The result is the fake device at which the loop breaks (the bio is to be
  queued) or \<open>None\<close> when the list is exhausted.\<close>

fun check_fds ::
  "nat \<Rightarrow> ulong \<Rightarrow> throtl_state \<Rightarrow> fake_device list \<Rightarrow> queue_id \<Rightarrow> bio_ptr
     \<Rightarrow> fault + (fake_device option \<times> throtl_state)" where
  "check_fds hz now s [] q bp = Inr (None, s)"
| "check_fds hz now s (fd # fds) q bp =
     (let rw = bio_data_dir (bios s bp);
          s1 = update_fd_queuenr s fd
      in if fake_d_has_limit s1 fd rw q then
           (if nr_queued (service_queue (tgs s1 (fd_tg fd))) rw \<noteq> 0 then Inr (Some fd, s1)
            else
              (case tg_may_dispatch hz now (tgs s1 (fd_tg fd)) (bios s1 bp) of
                 Inl f \<Rightarrow> Inl f
               | Inr (ok, w, tg') \<Rightarrow>
                   (let s2 = s1\<lparr>tgs := (tgs s1)(fd_tg fd := tg')\<rparr> in
                    if \<not> ok then Inr (Some fd, s2)
                    else
                      (case trim_fd_rules hz now (throtl_charge_bio_recursively s2 fd bp) fd rw of
                         Inl f \<Rightarrow> Inl f
                       | Inr s4 \<Rightarrow> check_fds hz now s4 fds q bp))))
         else check_fds hz now s1 fds q bp)"

text \<open>The code after that loop: the bio is queued on the member group of the fake device
  the loop stopped at, with the qnode \<open>qn\<close> the group loop left behind.\<close>

definition queue_on_member ::
  "nat \<Rightarrow> ulong \<Rightarrow> throtl_state \<Rightarrow> queue_id \<Rightarrow> bio_ptr \<Rightarrow> qnode_ref option \<Rightarrow> fake_device
     \<Rightarrow> fault + throtl_state" where
  "queue_on_member hz now s q bp qn fd =
     (let rw = bio_data_dir (bios s bp);
          s1 = s\<lparr>tds := (tds s)(q := (tds s q)\<lparr>td_nr_queued :=
                  (td_nr_queued (tds s q))(rw := td_nr_queued (tds s q) rw + 1)\<rparr>)\<rparr>
      in case queue_to_fd_member (fd_members fd) q of
           None \<Rightarrow> Inl NullDeref
         | Some m \<Rightarrow>
             (case throtl_add_bio_tg s1 bp qn (m_tg m) of
                Inl f \<Rightarrow> Inl f
              | Inr s2 \<Rightarrow>
                  (case tg_update_disptime_recursively hz now s2 fd of
                     Inl f \<Rightarrow> Inl f
                   | Inr s3 \<Rightarrow> schedule_parent now s3 (m_tg m))))"

definition fake_device_check ::
  "nat \<Rightarrow> ulong \<Rightarrow> bio_env \<Rightarrow> throtl_state \<Rightarrow> queue_id \<Rightarrow> bio_ptr \<Rightarrow> qnode_ref option
     \<Rightarrow> fault + (bool \<times> throtl_state)" where
  "fake_device_check hz now env s q bp qn =
     (case env_fd_head env of
        [] \<Rightarrow> Inl NullDeref
      | fd # fds \<Rightarrow>
          (case check_fds hz now s (fd # fds) q bp of
             Inl f \<Rightarrow> Inl f
           | Inr (None, s1) \<Rightarrow> Inr (throtl_out s1 bp False)
           | Inr (Some fd', s1) \<Rightarrow>
               (case queue_on_member hz now s1 q bp qn fd' of
                  Inl f \<Rightarrow> Inl f
                | Inr s2 \<Rightarrow> Inr (throtl_out s2 bp True))))"

definition blk_throtl_bio ::
  "nat \<Rightarrow> nat \<Rightarrow> ulong \<Rightarrow> bio_env \<Rightarrow> throtl_state \<Rightarrow> queue_id \<Rightarrow> bio_ptr
     \<Rightarrow> fault + (bool \<times> throtl_state)" where
  "blk_throtl_bio fuel hz now env s q bp =
     (let rw = bio_data_dir (bios s bp) in
      if REQ_THROTTLED \<in> bi_rw (bios s bp) then Inr (throtl_out s bp False)
      else
        (case (case env_lookup_tg env of
                 None \<Rightarrow> (False, env_fake_d_uninit env, s)
               | Some t \<Rightarrow>
                   if \<not> has_rules (tgs s t) rw \<and> \<not> has_rules (tgs s t) RANDW
                   then (fds_without_limit s (env_fd_head env) q rw True, None,
                         throtl_update_dispatch_stats s t (bios s bp))
                   else (False, env_fake_d_uninit env, s)) of
           (bypass, fake_d, s1) \<Rightarrow>
             if bypass then Inr (throtl_out s1 bp False)
             else
               (case env_lookup_create_tg env of
                  None \<Rightarrow> fake_device_check hz now env s1 q bp None
                | Some t \<Rightarrow>
                    (case climb_tgs fuel hz now s1 bp t None of
                       Inl f \<Rightarrow> Inl f
                     | Inr (None, qn, s2) \<Rightarrow>
                         if env_fd_head env \<noteq> [] then fake_device_check hz now env s2 q bp qn
                         else Inr (throtl_out s2 bp False)
                     | Inr (Some i, qn, s2) \<Rightarrow>
                         (case queue_out_of_limit hz now s2 q bp i fake_d of
                            Inl f \<Rightarrow> Inl f
                          | Inr s3 \<Rightarrow>
                              Inr (throtl_out (charge_fds s3 (env_fd_head env) q bp rw) bp True))))))"

section \<open>Concrete stores used in the examples\<close>

text \<open>What \<open>kzalloc\<close> returns: every field zero, every pointer null, every list empty.\<close>

definition zero_sq :: throtl_service_queue where
  "zero_sq = \<lparr>parent_sq = None, queued = (\<lambda>_. []), nr_queued = (\<lambda>_. 0), pending_tree = [],
     first_pending = None, nr_pending = 0, first_pending_disptime = 0, pending_timer = None\<rparr>"

definition zero_qn :: throtl_qnode where
  "zero_qn = \<lparr>qn_bios = [], qn_linked = False\<rparr>"

definition zero_tg :: throtl_grp where
  "zero_tg = \<lparr>service_queue = zero_sq, qnode_on_self = (\<lambda>_. zero_qn),
     qnode_on_parent = (\<lambda>_. zero_qn), tg_td = None, flags = {}, has_rules = (\<lambda>_. False),
     bps = (\<lambda>_. 0), iops = (\<lambda>_. 0), bytes_disp = (\<lambda>_. 0), io_disp = (\<lambda>_. 0),
     slice_start = (\<lambda>_. 0), slice_end = (\<lambda>_. 0), disptime = 0, fake = False,
     blkg_refs = 0, stats_cpu = None\<rparr>"

definition zero_td :: throtl_data where
  "zero_td = \<lparr>td_service_queue = zero_sq, td_nr_queued = (\<lambda>_. 0)\<rparr>"

definition zero_bio :: bio where
  "zero_bio = \<lparr>bi_rw = {}, bi_size = 0\<rparr>"

definition zero_state :: throtl_state where
  "zero_state = \<lparr>tgs = (\<lambda>_. zero_tg), tds = (\<lambda>_. zero_td), bios = (\<lambda>_. zero_bio)\<rparr>"

text \<open>Two ordinary groups 1 and 2 have dispatched reads to the root queue of device 0:
  group 1 has the bios 10 and 11 waiting there, group 2 the bio 20.\<close>

definition ex_pop_rr :: throtl_state where
  "ex_pop_rr = \<lparr>
     tgs = (\<lambda>_. zero_tg)
       (1 := zero_tg\<lparr>qnode_on_parent := (\<lambda>_. zero_qn)
               (READ := \<lparr>qn_bios = [10, 11], qn_linked = True\<rparr>),
             blkg_refs := 1\<rparr>,
        2 := zero_tg\<lparr>qnode_on_parent := (\<lambda>_. zero_qn)
               (READ := \<lparr>qn_bios = [20], qn_linked = True\<rparr>),
             blkg_refs := 1\<rparr>),
     tds = (\<lambda>_. zero_td)
       (0 := zero_td\<lparr>td_service_queue := zero_sq\<lparr>queued := (\<lambda>_. [])
               (READ := [(1, OnParent, READ), (2, OnParent, READ)])\<rparr>\<rparr>),
     bios = (\<lambda>_. zero_bio)\<rparr>"

text \<open>The member group 2 of a fake device has one read waiting on the root queue of
  device 0, linked there by \<open>throtl_qnode_add_bio_withoutblkg\<close>.\<close>

definition ex_pop_fake :: throtl_state where
  "ex_pop_fake = \<lparr>
     tgs = (\<lambda>_. zero_tg)
       (2 := zero_tg\<lparr>qnode_on_parent := (\<lambda>_. zero_qn)
               (READ := \<lparr>qn_bios = [20], qn_linked = True\<rparr>),
             fake := True\<rparr>),
     tds = (\<lambda>_. zero_td)
       (0 := zero_td\<lparr>td_service_queue := zero_sq\<lparr>queued := (\<lambda>_. [])
               (READ := [(2, OnParent, READ)])\<rparr>\<rparr>),
     bios = (\<lambda>_. zero_bio)\<rparr>"

text \<open>A fake device with header group 1 and one member, group 2 on device 0. The header
  records three queued reads and three queued writes, the member has one of each.\<close>

definition ex_fd :: fake_device where
  "ex_fd = \<lparr>fd_ident = 7, fd_tg = 1, fd_members = [\<lparr>m_queue = 0, m_tg = 2\<rparr>]\<rparr>"

definition ex_fd_queuenr :: throtl_state where
  "ex_fd_queuenr = zero_state\<lparr>tgs := (\<lambda>_. zero_tg)
     (1 := zero_tg\<lparr>fake := True,
             service_queue := zero_sq\<lparr>nr_queued := (\<lambda>_. 0)(READ := 3, WRITE := 3)\<rparr>\<rparr>,
      2 := zero_tg\<lparr>fake := True,
             service_queue := zero_sq\<lparr>nr_queued := (\<lambda>_. 0)(READ := 1, WRITE := 1)\<rparr>\<rparr>)\<rparr>"

text \<open>Group 1 is the only pending child of the root queue of device 0; its dispatch time
  is tick 1000.\<close>

definition ex_sched :: throtl_state where
  "ex_sched = zero_state\<lparr>
     tgs := (\<lambda>_. zero_tg)
       (1 := zero_tg\<lparr>service_queue := zero_sq\<lparr>parent_sq := Some (TdSq 0)\<rparr>,
               flags := {THROTL_TG_PENDING}, disptime := 1000\<rparr>),
     tds := (\<lambda>_. zero_td)
       (0 := zero_td\<lparr>td_service_queue := zero_sq\<lparr>pending_tree := [1],
               first_pending := Some 1, nr_pending := 1\<rparr>\<rparr>)\<rparr>"

text \<open>Groups for \<open>throtl_trim_slice\<close>, all with \<open>HZ = 1000\<close>, so a slice is 100 ticks.
  \<open>ex_trim_tg\<close>: a 1 MiB/s and 100 io/s read limit, slice from tick 1000 to 1300.
  \<open>ex_trim_small\<close>: read limits of 5 bytes/s and 5 io/s, too small to earn anything in one
  slice. \<open>ex_trim_unlimited\<close>: no limit at all and 500000000 ios charged to the read
  slice.\<close>

definition ex_trim_tg :: throtl_grp where
  "ex_trim_tg = zero_tg\<lparr>
     bps := (\<lambda>_. - 1)(READ := 1048576),
     iops := (\<lambda>_. - 1)(READ := 100),
     bytes_disp := (\<lambda>_. 0)(READ := 300000),
     io_disp := (\<lambda>_. 0)(READ := 25),
     slice_start := (\<lambda>_. 0)(READ := 1000),
     slice_end := (\<lambda>_. 0)(READ := 1300)\<rparr>"

definition ex_trim_small :: throtl_grp where
  "ex_trim_small = zero_tg\<lparr>
     bps := (\<lambda>_. - 1)(READ := 5),
     iops := (\<lambda>_. - 1)(READ := 5),
     bytes_disp := (\<lambda>_. 0)(READ := 100),
     io_disp := (\<lambda>_. 0)(READ := 3),
     slice_start := (\<lambda>_. 0)(READ := 0),
     slice_end := (\<lambda>_. 0)(READ := 200)\<rparr>"

definition ex_trim_unlimited :: throtl_grp where
  "ex_trim_unlimited = zero_tg\<lparr>
     bps := (\<lambda>_. - 1),
     iops := (\<lambda>_. - 1),
     bytes_disp := (\<lambda>_. 0)(READ := 4096),
     io_disp := (\<lambda>_. 0)(READ := 500000000),
     slice_start := (\<lambda>_. 0)(READ := 0),
     slice_end := (\<lambda>_. 0)(READ := 200)\<rparr>"

text \<open>A group limited to 1000 bytes/s and 1 io/s for reads, its slices never started, and a
  read of \<open>sz\<close> bytes.\<close>

definition ex_disp_tg :: throtl_grp where
  "ex_disp_tg = zero_tg\<lparr>bps := (\<lambda>_. - 1)(READ := 1000), iops := (\<lambda>_. - 1)(READ := 1)\<rparr>"

definition ex_disp_bio :: "u32 \<Rightarrow> bio" where
  "ex_disp_bio sz = \<lparr>bi_rw = {}, bi_size = sz\<rparr>"

text \<open>Group 1 sits below the root queue of device 0 and has a read limit; group 2 is its
  child and has no limit. Group 10 is the header of a fake device with a write limit and
  group 11 its member on device 0, not configured yet.\<close>

definition ex_rules :: throtl_state where
  "ex_rules = zero_state\<lparr>tgs := (\<lambda>_. zero_tg)
     (1 := zero_tg\<lparr>service_queue := zero_sq\<lparr>parent_sq := Some (TdSq 0)\<rparr>,
             bps := (\<lambda>_. - 1)(READ := 1000), iops := (\<lambda>_. - 1)\<rparr>,
      2 := zero_tg\<lparr>service_queue := zero_sq\<lparr>parent_sq := Some (TgSq 1)\<rparr>,
             bps := (\<lambda>_. - 1), iops := (\<lambda>_. - 1)\<rparr>,
      10 := zero_tg\<lparr>fake := True, bps := (\<lambda>_. - 1)(WRITE := 2000), iops := (\<lambda>_. - 1)\<rparr>,
      11 := zero_tg\<lparr>fake := True, service_queue := zero_sq\<lparr>parent_sq := Some (TdSq 0)\<rparr>,
             bps := (\<lambda>_. - 1), iops := (\<lambda>_. - 1)\<rparr>)\<rparr>"

definition ex_rules_fd :: fake_device where
  "ex_rules_fd = \<lparr>fd_ident = 7, fd_tg = 10, fd_members = [\<lparr>m_queue = 0, m_tg = 11\<rparr>]\<rparr>"

text \<open>Group 1 of device 0 is limited to 1000 bytes/s for reads. Bio 5 is a fresh read of
  4096 bytes, bio 6 one that carries REQ_THROTTLED. The control group owns no fake
  device; group 10 and its member 11 on device 0 belong to a fake device the local
  \<open>fake_d\<close> may happen to point at. Both lookups find group 1.\<close>

definition ex_bio_state :: throtl_state where
  "ex_bio_state = zero_state\<lparr>
     tgs := (\<lambda>_. zero_tg)
       (1 := zero_tg\<lparr>service_queue := zero_sq\<lparr>parent_sq := Some (TdSq 0)\<rparr>,
               tg_td := Some 0, has_rules := (\<lambda>_. False)(READ := True),
               bps := (\<lambda>_. - 1)(READ := 1000), iops := (\<lambda>_. - 1)\<rparr>,
        10 := zero_tg\<lparr>fake := True, bps := (\<lambda>_. - 1), iops := (\<lambda>_. - 1)\<rparr>,
        11 := zero_tg\<lparr>fake := True, service_queue := zero_sq\<lparr>parent_sq := Some (TdSq 0)\<rparr>,
               bps := (\<lambda>_. - 1), iops := (\<lambda>_. - 1)\<rparr>),
     bios := (\<lambda>_. zero_bio)
       (5 := \<lparr>bi_rw = {}, bi_size = 4096\<rparr>,
        6 := \<lparr>bi_rw = {REQ_THROTTLED}, bi_size = 4096\<rparr>)\<rparr>"

definition ex_other_fd :: fake_device where
  "ex_other_fd = \<lparr>fd_ident = 7, fd_tg = 10, fd_members = [\<lparr>m_queue = 0, m_tg = 11\<rparr>]\<rparr>"

definition ex_env :: "fake_device option \<Rightarrow> bio_env" where
  "ex_env garbage = \<lparr>env_lookup_tg = Some 1, env_lookup_create_tg = Some 1, env_fd_head = [],
     env_fake_d_uninit = garbage\<rparr>"

section \<open>Properties\<close>

subsection \<open>Reading back what was written to the store\<close>

lemma get_sq_set_sq [simp]: "get_sq (set_sq s r x) r = x"
  by (simp add: get_sq_def set_sq_def split: sq_ref.splits)

lemma get_qn_set_qn [simp]: "get_qn (set_qn s r x) r = x"
  by (simp add: get_qn_def set_qn_def split: prod.splits qn_kind.splits)

lemma get_qn_set_sq [simp]: "get_qn (set_sq s r x) qr = get_qn s qr"
  by (simp add: get_qn_def set_sq_def split: sq_ref.splits prod.splits qn_kind.splits)

lemma get_sq_set_qn [simp]: "get_sq (set_qn s qr x) r = get_sq s r"
  by (simp add: get_sq_def set_qn_def split: sq_ref.splits prod.splits qn_kind.splits)

lemma get_sq_blkg_put [simp]: "get_sq (blkg_put s i) r = get_sq s r"
  by (simp add: get_sq_def blkg_put_def upd_tg_def split: sq_ref.splits)

lemma get_qn_blkg_put [simp]: "get_qn (blkg_put s i) qr = get_qn s qr"
  by (simp add: get_qn_def blkg_put_def upd_tg_def split: prod.splits qn_kind.splits)

lemma fake_set_sq [simp]: "fake (tgs (set_sq s r x) i) = fake (tgs s i)"
  by (simp add: set_sq_def split: sq_ref.splits)

lemma fake_set_qn [simp]: "fake (tgs (set_qn s qr x) i) = fake (tgs s i)"
  by (simp add: set_qn_def split: prod.splits qn_kind.splits)

lemma refs_set_sq [simp]: "blkg_refs (tgs (set_sq s r x) i) = blkg_refs (tgs s i)"
  by (simp add: set_sq_def split: sq_ref.splits)

lemma refs_set_qn [simp]: "blkg_refs (tgs (set_qn s qr x) i) = blkg_refs (tgs s i)"
  by (simp add: set_qn_def split: prod.splits qn_kind.splits)

lemma refs_blkg_put [simp]:
  "blkg_refs (tgs (blkg_put s i) j) = blkg_refs (tgs s j) - (if i = j then 1 else 0)"
  by (simp add: blkg_put_def upd_tg_def)

subsection \<open>C8: throtl_pop_queued\<close>

text \<open>
  C8 (as the code has it). On an empty \<open>queued[]\<close> list \<open>throtl_pop_queued\<close> returns no bio
  and changes nothing. On a list whose head is the qnode \<open>qr\<close> it returns the head bio of
  \<open>qr\<close> and removes it from \<open>qr\<close>. If \<open>qr\<close> is then empty it is unlinked from the list;
  its group is handed to the caller when \<open>tg_to_put\<close> was given, and otherwise the
  function drops one reference on the group only if the group is not a fake-device
  group: a fake group's reference count is left alone. If \<open>qr\<close> still holds bios it moves
  to the tail of the list and no reference changes.
\<close>

theorem throtl_pop_queued_round_robin:
  "(queued (get_sq s sqr) d = [] \<longrightarrow> throtl_pop_queued s sqr d want_put = (None, None, s)) \<and>
   (\<forall>qr rest. queued (get_sq s sqr) d = qr # rest \<longrightarrow>
      (case throtl_pop_queued s sqr d want_put of (b, put, s') \<Rightarrow>
         b = bio_list_peek (qn_bios (get_qn s qr)) \<and>
         qn_bios (get_qn s' qr) = tl (qn_bios (get_qn s qr)) \<and>
         (if tl (qn_bios (get_qn s qr)) = []
          then queued (get_sq s' sqr) d = rest \<and> \<not> qn_linked (get_qn s' qr) \<and>
               put = (if want_put then Some (fst qr) else None) \<and>
               blkg_refs (tgs s' (fst qr)) =
                 (if \<not> want_put \<and> \<not> fake (tgs s (fst qr))
                  then blkg_refs (tgs s (fst qr)) - 1 else blkg_refs (tgs s (fst qr)))
          else queued (get_sq s' sqr) d = rest @ [qr] \<and>
               qn_linked (get_qn s' qr) = qn_linked (get_qn s qr) \<and> put = None \<and>
               blkg_refs (tgs s' (fst qr)) = blkg_refs (tgs s (fst qr)))))"
  by (auto simp: throtl_pop_queued_def Let_def)

text \<open>The theorem at work: group 1 has two bios on the root queue and group 2 one. The pop
  returns group 1's first bio and moves its qnode behind group 2's.\<close>

theorem throtl_pop_queued_round_robin_witness:
  "queued (get_sq ex_pop_rr (TdSq 0)) READ = [(1, OnParent, READ), (2, OnParent, READ)] \<and>
   (case throtl_pop_queued ex_pop_rr (TdSq 0) READ False of (b, put, s') \<Rightarrow>
      b = Some 10 \<and>
      qn_bios (get_qn s' (1, OnParent, READ)) = [11] \<and>
      queued (get_sq s' (TdSq 0)) READ = [(2, OnParent, READ), (1, OnParent, READ)] \<and>
      put = None \<and> blkg_refs (tgs s' 1) = 1)"
proof -
  have q: "queued (get_sq ex_pop_rr (TdSq 0)) READ = [(1, OnParent, READ), (2, OnParent, READ)]"
    by (simp add: ex_pop_rr_def get_sq_def zero_td_def zero_sq_def)
  have b: "qn_bios (get_qn ex_pop_rr (1, OnParent, READ)) = [10, 11]"
    by (simp add: ex_pop_rr_def get_qn_def)
  have r: "blkg_refs (tgs ex_pop_rr 1) = 1"
    by (simp add: ex_pop_rr_def)
  from throtl_pop_queued_round_robin [of ex_pop_rr "TdSq 0" READ False] q b r
  show ?thesis
    by (auto simp: bio_list_peek_def split: prod.splits)
qed

text \<open>Where the claim's parenthesis fails: the only qnode on the root queue belongs to a
  fake-device member and the caller passes no \<open>tg_to_put\<close> (as
  \<open>blk_throtl_dispatch_work_fn\<close> does). The qnode empties and is unlinked, yet the group
  is neither reported to the caller nor does its reference count change.\<close>

theorem throtl_pop_queued_fake_counterexample:
  "case throtl_pop_queued ex_pop_fake (TdSq 0) READ False of (b, put, s') \<Rightarrow>
     b = Some 20 \<and> queued (get_sq s' (TdSq 0)) READ = [] \<and>
     \<not> (put = Some 2 \<or> blkg_refs (tgs s' 2) = blkg_refs (tgs ex_pop_fake 2) - 1)"
  by (simp add: throtl_pop_queued_def ex_pop_fake_def get_sq_def set_sq_def get_qn_def
      set_qn_def bio_list_peek_def zero_td_def zero_sq_def zero_tg_def Let_def)

subsection \<open>C2: update_fd_queuenr\<close>

text \<open>
  C2 (the code at a failing input). The claim asks that \<open>update_fd_queuenr\<close> recompute the
  header's \<open>nr_queued[dir]\<close> for each direction separately, as the sum of the members'
  \<open>nr_queued[dir]\<close>. The function never resets \<open>total\<close> between the READ round and the WRITE
  round, so the WRITE round compares and stores the members' reads plus writes. Here the
  member has one read and one write queued and the header records three of each: the
  header's read count becomes 1, its write count becomes 2 although one write is queued.
\<close>

theorem update_fd_queuenr_write_counts_reads:
  "sum_members_queued ex_fd_queuenr (fd_members ex_fd) READ 0 = 1 \<and>
   sum_members_queued ex_fd_queuenr (fd_members ex_fd) WRITE 0 = 1 \<and>
   nr_queued (service_queue (tgs (update_fd_queuenr ex_fd_queuenr ex_fd) 1)) READ = 1 \<and>
   nr_queued (service_queue (tgs (update_fd_queuenr ex_fd_queuenr ex_fd) 1)) WRITE = 2"
  by (simp add: update_fd_queuenr_def fd_queuenr_round_def ex_fd_def ex_fd_queuenr_def
      zero_state_def zero_tg_def zero_sq_def set_sq_def Let_def)

subsection \<open>C7: throtl_schedule_next_dispatch\<close>

lemma disptime_set_sq [simp]: "disptime (tgs (set_sq s r x) i) = disptime (tgs s i)"
  by (simp add: set_sq_def split: sq_ref.splits)

text \<open>
  C7 (as the code has it). With no pending child \<open>throtl_schedule_next_dispatch\<close> returns
  true and changes nothing. Otherwise it refreshes \<open>first_pending_disptime\<close>, which is the
  dispatch time of the leftmost pending group whenever the cached \<open>first_pending\<close> is null
  or that group; it returns true iff \<open>force\<close> is set or that time is after \<open>jiffies\<close>; and
  it arms the timer, at that time, only when it returns true. When it returns false the
  timer is left as it was.
\<close>

theorem throtl_schedule_next_dispatch_spec:
  "(nr_pending (get_sq s sq) = 0 \<longrightarrow> throtl_schedule_next_dispatch now s sq force = (True, s)) \<and>
   (nr_pending (get_sq s sq) \<noteq> 0 \<longrightarrow>
      (case throtl_schedule_next_dispatch now s sq force of (done, s') \<Rightarrow>
         (\<forall>t ts. pending_tree (get_sq s sq) = t # ts \<and>
                  (first_pending (get_sq s sq) = None \<or> first_pending (get_sq s sq) = Some t)
            \<longrightarrow> first_pending_disptime (get_sq s' sq) = disptime (tgs s t)) \<and>
         (done \<longleftrightarrow> force \<or> time_after (first_pending_disptime (get_sq s' sq)) now) \<and>
         pending_timer (get_sq s' sq) =
           (if done then Some (first_pending_disptime (get_sq s' sq))
            else pending_timer (get_sq s sq))))"
  by (auto simp: throtl_schedule_next_dispatch_def update_min_dispatch_time_def
      throtl_rb_first_def throtl_schedule_pending_timer_def rb_first_def Let_def
      split: option.splits list.splits)

text \<open>The theorem at work: at tick 900 the only pending group is due at tick 1000, so the
  timer is armed for 1000 and the result is true.\<close>

theorem throtl_schedule_next_dispatch_spec_witness:
  "nr_pending (get_sq ex_sched (TdSq 0)) \<noteq> 0 \<and>
   pending_tree (get_sq ex_sched (TdSq 0)) = [1] \<and>
   first_pending (get_sq ex_sched (TdSq 0)) = Some 1 \<and>
   (case throtl_schedule_next_dispatch 900 ex_sched (TdSq 0) False of (done, s') \<Rightarrow>
      done \<and> first_pending_disptime (get_sq s' (TdSq 0)) = 1000 \<and>
      pending_timer (get_sq s' (TdSq 0)) = Some 1000)"
proof -
  have a: "nr_pending (get_sq ex_sched (TdSq 0)) \<noteq> 0"
          "pending_tree (get_sq ex_sched (TdSq 0)) = [1]"
          "first_pending (get_sq ex_sched (TdSq 0)) = Some 1"
          "disptime (tgs ex_sched 1) = 1000"
    by (simp_all add: ex_sched_def zero_state_def zero_td_def zero_sq_def get_sq_def)
  have t: "time_after (1000 :: ulong) 900"
    by (simp add: time_after_def)
  from throtl_schedule_next_dispatch_spec [of ex_sched "TdSq 0" 900 False] a t
  show ?thesis
    by (auto split: prod.splits)
qed

text \<open>Where the claim fails: at tick 1000 the pending group is due, \<open>force\<close> is not set, the
  function returns false and the timer stays unarmed, although \<open>nr_pending\<close> is not 0.\<close>

theorem throtl_schedule_next_dispatch_counterexample:
  "nr_pending (get_sq ex_sched (TdSq 0)) \<noteq> 0 \<and>
   (case throtl_schedule_next_dispatch 1000 ex_sched (TdSq 0) False of (done, s') \<Rightarrow>
      \<not> done \<and> first_pending_disptime (get_sq s' (TdSq 0)) = 1000 \<and>
      pending_timer (get_sq s' (TdSq 0)) = None)"
  by (simp add: throtl_schedule_next_dispatch_def update_min_dispatch_time_def
      throtl_rb_first_def throtl_schedule_pending_timer_def rb_first_def Let_def
      ex_sched_def zero_state_def zero_td_def zero_sq_def zero_tg_def get_sq_def set_sq_def
      time_after_def)

subsection \<open>Word arithmetic used by the slice theorems\<close>

lemma unat_ucast_u32_u64: "unat (ucast (x::u32) :: u64) = unat x"
proof -
  have "unat x < 2 ^ 32" using unsigned_less [of x, where 'a = nat] by simp
  then have "unat x < 2 ^ 64" by simp
  then show ?thesis
    by (simp add: unsigned_ucast_eq take_bit_nat_eq_self)
qed

lemma sat_sub_unat: "unat (if (t::'a::len word) \<le> x then x - t else 0) = unat x - unat t"
  by (auto simp: unat_sub word_le_nat_alt)

lemma sat_sub_unat_io:
  "unat (if (t::ulong) \<le> ucast (x::u32) then (ucast ((ucast x :: ulong) - t) :: u32) else 0)
     = unat x - unat t"
proof (cases "t \<le> ucast x")
  case True
  have "unat ((ucast x :: ulong) - t) = unat x - unat t"
    using True by (simp add: unat_sub unat_ucast_u32_u64)
  moreover have "unat x - unat t < 2 ^ 32"
    using unsigned_less [of x, where 'a = nat] by simp
  ultimately have "unat (ucast ((ucast x :: ulong) - t) :: u32) = unat x - unat t"
    by (simp add: unsigned_ucast_eq take_bit_nat_eq_self)
  with True show ?thesis by simp
next
  case False
  then have "unat x < unat t" by (simp add: word_le_nat_alt unat_ucast_u32_u64)
  with False show ?thesis by simp
qed

lemma m1_u32: "(- 1 :: u32) = 4294967295" by simp
lemma uc2: "(ucast (- 1 :: 32 word) :: 64 word) = 4294967295" 
  by (simp only: m1_u32) simp

lemma elapsed_bound:
  assumes "0 \<le> sint (w :: 64 word)"
  shows "unat w < 2 ^ 63"
proof -
  have lt: "sint w < 2 ^ 63" using sint_lt [of w] by simp
  have "uint w = take_bit 64 (sint w)" using uint_sint [of w] by simp
  also have "\<dots> = sint w" using assms lt by (simp add: take_bit_int_eq_self)
  finally have "uint w < 2 ^ 63" using lt by simp
  moreover have "int (unat w) = uint w" by simp
  ultimately have "int (unat w) < int (2 ^ 63)" by simp
  then show ?thesis by (simp only: of_nat_less_iff)
qed

lemma unat_neg64:
  assumes "x \<noteq> 0"
  shows "unat (- x :: 64 word) = 2 ^ 64 - unat x"
proof -
  have "0 < unat x" using assms by (simp add: unat_gt_0)
  then show ?thesis
    using unat_sub_if_size [of 0 x] by (simp add: word_size)
qed

lemma unat_m1_u32: "unat (- 1 :: u32) = 2 ^ 32 - 1"
  by (simp add: unsigned_minus_1_eq_mask mask_eq_exp_minus_1)

lemmas time_defs = time_in_range_def time_after_eq_def time_before_eq_def time_before_def
  time_after_def

subsection \<open>C6: throtl_trim_slice\<close>

text \<open>The three ways through \<open>throtl_trim_slice\<close> for a direction that is its own \<open>bool\<close>
  image (READ or WRITE) and a slice that does not end before it starts.\<close>

lemma trim_used:
  assumes "\<not> time_before (slice_end tg rw) (slice_start tg rw)" "bool_ix rw = rw"
    and "\<not> time_in_range now (slice_start tg rw) (slice_end tg rw)"
  shows "throtl_trim_slice hz now tg rw = Inr tg"
  using assms by (simp add: throtl_trim_slice_def throtl_slice_used_def)

lemma trim_none:
  assumes "\<not> time_before (slice_end tg rw) (slice_start tg rw)" "bool_ix rw = rw"
    and "time_in_range now (slice_start tg rw) (slice_end tg rw)"
    and "S = throtl_slice hz" "n = (now - slice_start tg rw) div S"
    and "bytes_trim = (bps tg rw * S * n) div of_nat hz"
    and "io_trim = ((ucast (iops tg rw) :: ulong) * S * n) div of_nat hz"
    and "n = 0 \<or> (bytes_trim = 0 \<and> io_trim = 0)"
  shows "throtl_trim_slice hz now tg rw =
           Inr (tg\<lparr>slice_end := (slice_end tg)(rw := roundup (now + S) S)\<rparr>)"
  using assms
  by (auto simp: throtl_trim_slice_def throtl_slice_used_def throtl_set_slice_end_def Let_def)

lemma trim_some:
  assumes "\<not> time_before (slice_end tg rw) (slice_start tg rw)" "bool_ix rw = rw"
    and "time_in_range now (slice_start tg rw) (slice_end tg rw)"
    and "S = throtl_slice hz" "n = (now - slice_start tg rw) div S"
    and "bytes_trim = (bps tg rw * S * n) div of_nat hz"
    and "io_trim = ((ucast (iops tg rw) :: ulong) * S * n) div of_nat hz"
    and "n \<noteq> 0" "\<not> (bytes_trim = 0 \<and> io_trim = 0)"
  shows "throtl_trim_slice hz now tg rw =
           Inr (tg\<lparr>slice_end := (slice_end tg)(rw := roundup (now + S) S),
                bytes_disp := (bytes_disp tg)(rw :=
                   (if bytes_trim \<le> bytes_disp tg rw then bytes_disp tg rw - bytes_trim else 0)),
                io_disp := (io_disp tg)(rw :=
                   (if io_trim \<le> ucast (io_disp tg rw)
                    then ucast ((ucast (io_disp tg rw) :: ulong) - io_trim) else 0)),
                slice_start := (slice_start tg)(rw := slice_start tg rw + n * S)\<rparr>)"
  using assms
  by (auto simp: throtl_trim_slice_def throtl_slice_used_def throtl_set_slice_end_def Let_def)

text \<open>
  C6 (as the code has it, for READ and WRITE). Let \<open>S\<close> be the slice width,
  \<open>n = floor((now - slice_start)/S)\<close>, \<open>bytes_trim = bps * S * n / HZ\<close> (in 64-bit unsigned
  arithmetic) and \<open>io_trim = iops * S * n / HZ\<close>. If the slice is expired, or \<open>n = 0\<close>, or
  both trim amounts are 0, then \<open>bytes_disp\<close>, \<open>io_disp\<close> and \<open>slice_start\<close> are unchanged.
  Otherwise \<open>bytes_disp[rw]\<close> and \<open>io_disp[rw]\<close> are lowered by their trim amounts, stopping
  at 0, \<open>slice_start[rw]\<close> advances by exactly \<open>n * S\<close>, and the other directions keep
  their values.
\<close>

theorem throtl_trim_slice_spec:
  assumes hz: "10 \<le> hz"
    and rw: "rw \<noteq> RANDW"
    and nobug: "\<not> time_before (slice_end tg rw) (slice_start tg rw)"
  shows "\<exists>tg'. throtl_trim_slice hz now tg rw = Inr tg' \<and>
     (let S = throtl_slice hz;
          n = (now - slice_start tg rw) div S;
          bytes_trim = (bps tg rw * S * n) div of_nat hz;
          io_trim = (ucast (iops tg rw) * S * n) div of_nat hz
      in unat n = unat (now - slice_start tg rw) div unat S \<and>
         (if \<not> time_in_range now (slice_start tg rw) (slice_end tg rw) \<or> n = 0 \<or>
             (bytes_trim = 0 \<and> io_trim = 0)
          then bytes_disp tg' = bytes_disp tg \<and> io_disp tg' = io_disp tg \<and>
               slice_start tg' = slice_start tg
          else unat (bytes_disp tg' rw) = unat (bytes_disp tg rw) - unat bytes_trim \<and>
               unat (io_disp tg' rw) = unat (io_disp tg rw) - unat io_trim \<and>
               slice_start tg' rw = slice_start tg rw + n * S \<and>
               (\<forall>d. d \<noteq> rw \<longrightarrow> bytes_disp tg' d = bytes_disp tg d \<and>
                     io_disp tg' d = io_disp tg d \<and> slice_start tg' d = slice_start tg d)))"
proof -
  have b: "bool_ix rw = rw" using rw by (cases rw) simp_all
  define S where "S = throtl_slice hz"
  define n where "n = (now - slice_start tg rw) div S"
  define bytes_trim where "bytes_trim = (bps tg rw * S * n) div of_nat hz"
  define io_trim where "io_trim = ((ucast (iops tg rw) :: ulong) * S * n) div of_nat hz"
  note defs = S_def n_def bytes_trim_def io_trim_def
  have n: "unat n = unat (now - slice_start tg rw) div unat S"
    by (simp add: n_def unat_div)
  have goal: "\<exists>tg'. throtl_trim_slice hz now tg rw = Inr tg' \<and>
         unat n = unat (now - slice_start tg rw) div unat S \<and>
         (if \<not> time_in_range now (slice_start tg rw) (slice_end tg rw) \<or> n = 0 \<or>
             (bytes_trim = 0 \<and> io_trim = 0)
          then bytes_disp tg' = bytes_disp tg \<and> io_disp tg' = io_disp tg \<and>
               slice_start tg' = slice_start tg
          else unat (bytes_disp tg' rw) = unat (bytes_disp tg rw) - unat bytes_trim \<and>
               unat (io_disp tg' rw) = unat (io_disp tg rw) - unat io_trim \<and>
               slice_start tg' rw = slice_start tg rw + n * S \<and>
               (\<forall>d. d \<noteq> rw \<longrightarrow> bytes_disp tg' d = bytes_disp tg d \<and>
                     io_disp tg' d = io_disp tg d \<and> slice_start tg' d = slice_start tg d))"
  proof -
    consider (used) "\<not> time_in_range now (slice_start tg rw) (slice_end tg rw)"
      | (none) "time_in_range now (slice_start tg rw) (slice_end tg rw)"
          "n = 0 \<or> (bytes_trim = 0 \<and> io_trim = 0)"
      | (trim) "time_in_range now (slice_start tg rw) (slice_end tg rw)"
          "n \<noteq> 0" "\<not> (bytes_trim = 0 \<and> io_trim = 0)"
      by blast
    then show ?thesis
    proof cases
      case used
      with trim_used [OF nobug b used] n show ?thesis by simp
    next
      case none
      with trim_none [OF nobug b none(1) defs none(2)] n show ?thesis by auto
    next
      case trim
      have bd: "unat (if bytes_trim \<le> bytes_disp tg rw then bytes_disp tg rw - bytes_trim else 0)
                  = unat (bytes_disp tg rw) - unat bytes_trim"
        by (rule sat_sub_unat)
      have io: "unat (if io_trim \<le> ucast (io_disp tg rw)
                    then (ucast ((ucast (io_disp tg rw) :: ulong) - io_trim) :: u32) else 0)
                  = unat (io_disp tg rw) - unat io_trim"
        by (rule sat_sub_unat_io)
      from trim trim_some [OF nobug b trim(1) defs trim(2,3)] n bd io show ?thesis
        by (auto simp del: if_split)
    qed
  qed
  show ?thesis
    unfolding Let_def using goal [unfolded defs] .
qed

text \<open>The theorem at work: 250 ticks into the slice two widths are complete; the 1 MiB/s
  limit earns 209715 bytes and the 100 io/s limit 20 ios.\<close>

theorem throtl_trim_slice_spec_witness:
  "(10::nat) \<le> 1000 \<and> READ \<noteq> RANDW \<and>
   \<not> time_before (slice_end ex_trim_tg READ) (slice_start ex_trim_tg READ) \<and>
   (\<exists>tg'. throtl_trim_slice 1000 1250 ex_trim_tg READ = Inr tg' \<and>
      unat (bytes_disp tg' READ) = 90285 \<and> unat (io_disp tg' READ) = 5 \<and>
      slice_start tg' READ = 1200)"
proof -
  have nb: "\<not> time_before (slice_end ex_trim_tg READ) (slice_start ex_trim_tg READ)"
    by (simp add: ex_trim_tg_def time_defs)
  have cur: "time_in_range 1250 (slice_start ex_trim_tg READ) (slice_end ex_trim_tg READ)"
    by (simp add: ex_trim_tg_def time_defs)
  from throtl_trim_slice_spec [of 1000 READ ex_trim_tg 1250] nb
  obtain tg' where r: "throtl_trim_slice 1000 1250 ex_trim_tg READ = Inr tg'"
    and p: "(let S = throtl_slice 1000;
          n = (1250 - slice_start ex_trim_tg READ) div S;
          bytes_trim = (bps ex_trim_tg READ * S * n) div of_nat 1000;
          io_trim = (ucast (iops ex_trim_tg READ) * S * n) div of_nat 1000
      in unat n = unat (1250 - slice_start ex_trim_tg READ) div unat S \<and>
         (if \<not> time_in_range 1250 (slice_start ex_trim_tg READ) (slice_end ex_trim_tg READ) \<or> n = 0 \<or>
             (bytes_trim = 0 \<and> io_trim = 0)
          then bytes_disp tg' = bytes_disp ex_trim_tg \<and> io_disp tg' = io_disp ex_trim_tg \<and>
               slice_start tg' = slice_start ex_trim_tg
          else unat (bytes_disp tg' READ) = unat (bytes_disp ex_trim_tg READ) - unat bytes_trim \<and>
               unat (io_disp tg' READ) = unat (io_disp ex_trim_tg READ) - unat io_trim \<and>
               slice_start tg' READ = slice_start ex_trim_tg READ + n * S \<and>
               (\<forall>d. d \<noteq> READ \<longrightarrow> bytes_disp tg' d = bytes_disp ex_trim_tg d \<and>
                     io_disp tg' d = io_disp ex_trim_tg d \<and> slice_start tg' d = slice_start ex_trim_tg d)))"
    by auto
  from p cur have "unat (bytes_disp tg' READ) = 90285 \<and> unat (io_disp tg' READ) = 5 \<and>
      slice_start tg' READ = 1200"
    by (simp add: Let_def throtl_slice_def ex_trim_tg_def)
  with r nb show ?thesis by simp
qed

text \<open>Where the claim fails: one full slice width has passed in a current slice, but limits
  of 5 bytes/s and 5 io/s earn nothing in it, so the function returns before it moves
  \<open>slice_start\<close>.\<close>

theorem throtl_trim_slice_counterexample:
  "time_in_range 150 (slice_start ex_trim_small READ) (slice_end ex_trim_small READ) \<and>
   (150 - slice_start ex_trim_small READ) div throtl_slice 1000 = 1 \<and>
   (\<exists>tg'. throtl_trim_slice 1000 150 ex_trim_small READ = Inr tg' \<and>
      slice_start tg' READ = slice_start ex_trim_small READ \<and>
      slice_start tg' READ \<noteq> slice_start ex_trim_small READ + 1 * throtl_slice 1000)"
  by (simp add: throtl_trim_slice_def throtl_slice_used_def throtl_set_slice_end_def
      throtl_slice_def ex_trim_small_def time_defs Let_def roundup_def)

subsection \<open>C10: throtl_trim_slice without limits\<close>

text \<open>
  C10 (as the code has it, for READ and WRITE). With \<open>bps[rw]\<close> and \<open>iops[rw]\<close> both -1, a
  current slice and \<open>n \<ge> 1\<close> complete slice widths, the trim amounts are what the unsigned
  arithmetic makes of -1: \<open>(2^64 - S*n) / HZ\<close> bytes and \<open>((2^32 - 1) * S * n mod 2^64) / HZ\<close>
  ios. \<open>bytes_disp[rw]\<close> and \<open>io_disp[rw]\<close> are lowered by these amounts, stopping at 0: they
  are reset to 0 exactly when they do not exceed them.
\<close>

theorem throtl_trim_slice_unlimited:
  assumes hz: "10 \<le> hz" "hz < 2 ^ 31"
    and rw: "rw \<noteq> RANDW"
    and nobug: "\<not> time_before (slice_end tg rw) (slice_start tg rw)"
    and cur: "time_in_range now (slice_start tg rw) (slice_end tg rw)"
    and unl: "bps tg rw = - 1" "iops tg rw = - 1"
    and n: "n = unat (now - slice_start tg rw) div (hz div 10)" "n \<noteq> 0"
  shows "\<exists>tg'. throtl_trim_slice hz now tg rw = Inr tg' \<and>
      unat (bytes_disp tg' rw) = unat (bytes_disp tg rw) - (2 ^ 64 - (hz div 10) * n) div hz \<and>
      unat (io_disp tg' rw) =
        unat (io_disp tg rw) - ((2 ^ 32 - 1) * (hz div 10) * n mod 2 ^ 64) div hz"
proof -
  have b: "bool_ix rw = rw" using rw by (cases rw) simp_all
  define S where "S = throtl_slice hz"
  define nw where "nw = (now - slice_start tg rw) div S"
  define bytes_trim where "bytes_trim = (bps tg rw * S * nw) div of_nat hz"
  define io_trim where "io_trim = ((ucast (iops tg rw) :: ulong) * S * nw) div of_nat hz"
  note defs = S_def nw_def bytes_trim_def io_trim_def
  have hz64: "hz < 2 ^ 64" "hz div 10 < 2 ^ 64"
    using hz(2) by (auto intro: less_trans [where y = "2 ^ 31"] le_less_trans [OF div_le_dividend])
  have uS: "unat S = hz div 10"
    using hz64 by (simp add: S_def throtl_slice_def unat_of_nat)
  have uhz: "unat (of_nat hz :: ulong) = hz"
    using hz64 by (simp add: unat_of_nat)
  have unw: "unat nw = n"
    by (simp add: nw_def unat_div uS n(1))
  have nw0: "nw \<noteq> 0"
    using unw n(2) by auto
  have el: "unat (now - slice_start tg rw) < 2 ^ 63"
  proof (rule elapsed_bound)
    show "0 \<le> sint (now - slice_start tg rw)"
      using cur by (simp add: time_in_range_def time_after_eq_def)
  qed
  have prod_le: "(hz div 10) * n \<le> unat (now - slice_start tg rw)"
    unfolding n(1) by simp
  have prod_lt: "(hz div 10) * n < 2 ^ 63"
    using prod_le el by linarith
  have prod_pos: "0 < (hz div 10) * n"
    using hz(1) n(2) by simp
  have uSn: "unat (S * nw) = (hz div 10) * n"
  proof -
    have "unat S * unat nw < 2 ^ LENGTH(64)"
      using prod_lt by (simp add: uS unw)
    then show ?thesis
      by (simp add: unat_mult_lem [THEN iffD1] uS unw)
  qed
  have Sn0: "S * nw \<noteq> 0"
    using uSn prod_pos by (metis less_numeral_extra(3) unat_0)
  have ubt: "unat bytes_trim = (2 ^ 64 - (hz div 10) * n) div hz"
  proof -
    have "bps tg rw * S * nw = - (S * nw)"
      by (simp add: unl)
    moreover have "unat (- (S * nw)) = 2 ^ 64 - (hz div 10) * n"
      using Sn0 by (simp add: unat_neg64 uSn)
    ultimately show ?thesis
      by (simp add: bytes_trim_def unat_div uhz)
  qed
  have bt0: "bytes_trim \<noteq> 0"
  proof -
    have "hz \<le> 2 ^ 64 - (hz div 10) * n"
      using prod_lt hz(2) by simp
    then have "1 \<le> (2 ^ 64 - (hz div 10) * n) div hz"
      using hz(1) by (simp add: Suc_le_eq div_greater_zero_iff)
    then show ?thesis
      using ubt by (metis not_one_le_zero unat_0)
  qed
  have uit: "unat io_trim = ((2 ^ 32 - 1) * (hz div 10) * n mod 2 ^ 64) div hz"
  proof -
    have "unat (ucast (iops tg rw) :: ulong) = 2 ^ 32 - 1"
      by (simp only: unl unat_ucast_u32_u64 unat_m1_u32)
    then have "unat ((ucast (iops tg rw) :: ulong) * S * nw) =
        (2 ^ 32 - 1) * (hz div 10) * n mod 2 ^ 64"
      by (simp add: unat_word_ariths uS unw mod_mult_left_eq)
    then show ?thesis
      by (simp add: io_trim_def unat_div uhz)
  qed
  have some: "throtl_trim_slice hz now tg rw =
           Inr (tg\<lparr>slice_end := (slice_end tg)(rw := roundup (now + S) S),
                bytes_disp := (bytes_disp tg)(rw :=
                   (if bytes_trim \<le> bytes_disp tg rw then bytes_disp tg rw - bytes_trim else 0)),
                io_disp := (io_disp tg)(rw :=
                   (if io_trim \<le> ucast (io_disp tg rw)
                    then ucast ((ucast (io_disp tg rw) :: ulong) - io_trim) else 0)),
                slice_start := (slice_start tg)(rw := slice_start tg rw + nw * S)\<rparr>)"
    using bt0 by (intro trim_some [OF nobug b cur defs nw0]) simp
  have bd: "unat (if bytes_trim \<le> bytes_disp tg rw then bytes_disp tg rw - bytes_trim else 0)
              = unat (bytes_disp tg rw) - unat bytes_trim"
    by (rule sat_sub_unat)
  have io: "unat (if io_trim \<le> ucast (io_disp tg rw)
                then (ucast ((ucast (io_disp tg rw) :: ulong) - io_trim) :: u32) else 0)
              = unat (io_disp tg rw) - unat io_trim"
    by (rule sat_sub_unat_io)
  from some bd io ubt uit show ?thesis
    by (auto simp del: if_split)
qed

text \<open>The theorem at work, and the limit of the claim: after one slice width at
  \<open>HZ = 1000\<close> the byte counter 4096 is reset, the io counter 500000000 is lowered by
  429496729 and is not 0.\<close>

theorem throtl_trim_slice_unlimited_witness:
  "(10::nat) \<le> 1000 \<and> (1000::nat) < 2 ^ 31 \<and> READ \<noteq> RANDW \<and>
   \<not> time_before (slice_end ex_trim_unlimited READ) (slice_start ex_trim_unlimited READ) \<and>
   time_in_range 150 (slice_start ex_trim_unlimited READ) (slice_end ex_trim_unlimited READ) \<and>
   bps ex_trim_unlimited READ = - 1 \<and> iops ex_trim_unlimited READ = - 1 \<and>
   unat ((150::ulong) - slice_start ex_trim_unlimited READ) div (1000 div 10) = 1 \<and>
   (\<exists>tg'. throtl_trim_slice 1000 150 ex_trim_unlimited READ = Inr tg' \<and>
      unat (bytes_disp tg' READ) = 0 \<and> unat (io_disp tg' READ) = 70503271)"
proof -
  have h1: "(10::nat) \<le> 1000" by simp
  have h2: "(1000::nat) < 2 ^ 31" by simp
  have h3: "READ \<noteq> RANDW" by simp
  have nb: "\<not> time_before (slice_end ex_trim_unlimited READ) (slice_start ex_trim_unlimited READ)"
    by (simp add: ex_trim_unlimited_def time_defs)
  have cur: "time_in_range 150 (slice_start ex_trim_unlimited READ) (slice_end ex_trim_unlimited READ)"
    by (simp add: ex_trim_unlimited_def time_defs)
  have unl: "bps ex_trim_unlimited READ = - 1" "iops ex_trim_unlimited READ = - 1"
    by (simp_all add: ex_trim_unlimited_def)
  have n: "unat ((150::ulong) - slice_start ex_trim_unlimited READ) div (1000 div 10) = 1"
    by (simp add: ex_trim_unlimited_def)
  have n0: "(1::nat) \<noteq> 0" by simp
  have bd: "unat (bytes_disp ex_trim_unlimited READ) = 4096"
    and io: "unat (io_disp ex_trim_unlimited READ) = 500000000"
    by (simp_all add: ex_trim_unlimited_def)
  have a1: "(2 ^ 64 - (1000 div 10) * 1) div 1000 = (18446744073709551::nat)" by simp
  have a2: "((2 ^ 32 - 1) * (1000 div 10) * 1 mod 2 ^ 64) div 1000 = (429496729::nat)" by simp
  from throtl_trim_slice_unlimited [OF h1 h2 h3 nb cur unl n [symmetric] n0]
  obtain tg' where r: "throtl_trim_slice 1000 150 ex_trim_unlimited READ = Inr tg'"
    and p: "unat (bytes_disp tg' READ) =
              unat (bytes_disp ex_trim_unlimited READ) - (2 ^ 64 - (1000 div 10) * 1) div 1000"
           "unat (io_disp tg' READ) =
              unat (io_disp ex_trim_unlimited READ) - ((2 ^ 32 - 1) * (1000 div 10) * 1 mod 2 ^ 64) div 1000"
    by blast
  from p have "unat (bytes_disp tg' READ) = 0 \<and> unat (io_disp tg' READ) = 70503271"
    unfolding a1 a2 bd io by simp
  with r h1 h2 nb cur unl n show ?thesis by (intro conjI exI [of _ tg']) simp_all
qed

text \<open>Where the claim fails: no limit, a current slice, one full width elapsed, and
  \<open>io_disp\<close> is 70503271 afterwards.\<close>

theorem throtl_trim_slice_unlimited_counterexample:
  "bps ex_trim_unlimited READ = - 1 \<and> iops ex_trim_unlimited READ = - 1 \<and>
   time_in_range 150 (slice_start ex_trim_unlimited READ) (slice_end ex_trim_unlimited READ) \<and>
   (150 - slice_start ex_trim_unlimited READ) div throtl_slice 1000 = 1 \<and>
   (\<exists>tg'. throtl_trim_slice 1000 150 ex_trim_unlimited READ = Inr tg' \<and>
      io_disp tg' READ = 70503271)"
  by (simp add: throtl_trim_slice_def throtl_slice_used_def throtl_set_slice_end_def
      throtl_slice_def ex_trim_unlimited_def time_defs Let_def roundup_def uc2)

subsection \<open>C5: tg_may_dispatch\<close>

lemma max_0_word [simp]: "max (0::'a::len word) x = x" "max x (0::'a::len word) = x"
  by (simp_all add: max_def)

lemma max_eq_0_word: "max (x::'a::len word) y = 0 \<longleftrightarrow> x = 0 \<and> y = 0"
  by (auto simp: max_def word_le_nat_alt unat_eq_0)

lemma bps_limit_result:
  assumes "tg_with_in_bps_limit hz now tg b 0 = Inr (okb, w)"
  shows "w = bps_component hz now tg b \<and> okb = (w = 0)"
  using assms
  by (auto simp: tg_with_in_bps_limit_def bps_component_def limit_wait_def Let_def
      split: if_splits sum.splits option.splits)

lemma iops_limit_result:
  assumes "tg_with_in_iops_limit hz now tg b 0 = Inr (oki, w)"
  shows "w = iops_component hz now tg b \<and> oki = (w = 0)"
  using assms
  by (auto simp: tg_with_in_iops_limit_def iops_component_def limit_wait_def Let_def
      split: if_splits sum.splits option.splits)

lemma iops_block_nonzero: "iops_block hz now tg d = Inr (Some jw) \<Longrightarrow> jw \<noteq> 0"
  by (auto simp: iops_block_def Let_def split: if_splits)

lemma iops_limit_fits:
  assumes "tg_with_in_iops_limit hz now tg b 0 = Inr (True, w)"
  shows "iops_fits hz now tg (bio_data_dir b) \<and> iops_fits hz now tg RANDW"
  using assms
  by (auto simp: tg_with_in_iops_limit_def iops_fits_def Let_def max_eq_0_word
      dest: iops_block_nonzero
      split: if_splits sum.splits option.splits)

lemma bps_limit_fits:
  assumes "tg_with_in_bps_limit hz now tg b 0 = Inr (True, w)"
    and "bps_block hz now tg b (bio_data_dir b) \<noteq> Inr (Some 0)"
    and "bps_block hz now tg b RANDW \<noteq> Inr (Some 0)"
  shows "bps_fits hz now tg b (bio_data_dir b) \<and> bps_fits hz now tg b RANDW"
  using assms
  by (auto simp: tg_with_in_bps_limit_def bps_fits_def Let_def max_eq_0_word
      split: if_splits sum.splits option.splits)

lemma fits_bps_limit:
  assumes "bps_fits hz now tg b (bio_data_dir b)" "bps_fits hz now tg b RANDW"
  shows "tg_with_in_bps_limit hz now tg b 0 = Inr (True, 0)"
  using assms
  by (auto simp: tg_with_in_bps_limit_def bps_fits_def Let_def)

lemma fits_iops_limit:
  assumes "iops_fits hz now tg (bio_data_dir b)" "iops_fits hz now tg RANDW"
  shows "tg_with_in_iops_limit hz now tg b 0 = Inr (True, 0)"
  using assms
  by (auto simp: tg_with_in_iops_limit_def iops_fits_def Let_def)

lemma tg_may_dispatch_limited:
  assumes "\<not> unlimited tg b"
  shows "tg_may_dispatch hz now tg b =
     (case tg_with_in_bps_limit hz now (renewed hz now tg b) b 0 of
           Inl f \<Rightarrow> Inl f
         | Inr (bps_ok, bps_wait) \<Rightarrow>
             if bps_ok then
               (case tg_with_in_iops_limit hz now (renewed hz now tg b) b 0 of
                  Inl f \<Rightarrow> Inl f
                | Inr (iops_ok, iops_wait) \<Rightarrow>
                    if iops_ok then Inr (True, 0, renewed hz now tg b)
                    else Inr (False, max bps_wait iops_wait,
                              reject_extend hz now (renewed hz now tg b) (bio_data_dir b)
                                (max bps_wait iops_wait)))
             else Inr (False, max bps_wait 0,
                       reject_extend hz now (renewed hz now tg b) (bio_data_dir b) (max bps_wait 0)))"
proof -
  have n: "\<not> (bps tg (bio_data_dir b) = - 1 \<and> iops tg (bio_data_dir b) = - 1 \<and>
              bps tg RANDW = - 1 \<and> iops tg RANDW = - 1)"
    using assms by (simp add: unlimited_def)
  show ?thesis
    unfolding tg_may_dispatch_def Let_def renewed_def by (rule if_not_P [OF n])
qed

lemma may_dispatch_bps_rejects:
  assumes e: "tg_may_dispatch hz now tg b = Inr (ok, wait, tg')"
    and lim: "\<not> unlimited tg b"
    and bps: "tg_with_in_bps_limit hz now (renewed hz now tg b) b 0 = Inr (False, bw)"
  shows "\<not> ok \<and> wait = bw"
proof -
  have "tg_may_dispatch hz now tg b =
      Inr (False, max bw 0, reject_extend hz now (renewed hz now tg b) (bio_data_dir b) (max bw 0))"
    unfolding tg_may_dispatch_limited [OF lim] bps by simp
  with e show ?thesis by simp
qed

lemma may_dispatch_bps_passes:
  assumes e: "tg_may_dispatch hz now tg b = Inr (ok, wait, tg')"
    and lim: "\<not> unlimited tg b"
    and bps: "tg_with_in_bps_limit hz now (renewed hz now tg b) b 0 = Inr (True, bw)"
  shows "\<exists>iw. tg_with_in_iops_limit hz now (renewed hz now tg b) b 0 = Inr (ok, iw) \<and>
              wait = (if ok then 0 else max bw iw)"
proof (cases "tg_with_in_iops_limit hz now (renewed hz now tg b) b 0")
  case (Inl f)
  have "tg_may_dispatch hz now tg b = Inl f"
    unfolding tg_may_dispatch_limited [OF lim] bps Inl by simp
  with e show ?thesis by simp
next
  case (Inr r)
  obtain oki iw where r: "r = (oki, iw)" by (cases r)
  have "tg_may_dispatch hz now tg b =
      (if oki then Inr (True, 0, renewed hz now tg b)
       else Inr (False, max bw iw,
              reject_extend hz now (renewed hz now tg b) (bio_data_dir b) (max bw iw)))"
    unfolding tg_may_dispatch_limited [OF lim] bps Inr r by simp
  with e Inr r show ?thesis by (cases oki) simp_all
qed

text \<open>
  C5 (as the code has it). For a group and bio to which some limit applies, and a call
  that returns, \<open>tg_may_dispatch\<close> permits dispatch iff the BPS component and the IOPS
  component of the wait are both 0. It does so whenever the bio satisfies the rw and the
  RANDW limit for both BPS and IOPS; and when it permits dispatch the bio satisfies both
  IOPS limits, and both BPS limits unless a BPS block has reported a wait that the 64-bit
  addition wrapped to 0. The wait it reports is the BPS component when that is not 0 (the
  IOPS limits are then not looked at), and the IOPS component otherwise; each component
  is the maximum of its rw and RANDW waits.
\<close>

theorem tg_may_dispatch_composition:
  assumes hz: "10 \<le> hz"
    and lim: "\<not> unlimited tg b"
    and res: "tg_may_dispatch hz now tg b = Inr (ok, wait, tg')"
  shows "(ok \<longleftrightarrow> bps_component hz now (renewed hz now tg b) b = 0 \<and>
                iops_component hz now (renewed hz now tg b) b = 0) \<and>
         wait = (if bps_component hz now (renewed hz now tg b) b \<noteq> 0
                 then bps_component hz now (renewed hz now tg b) b
                 else iops_component hz now (renewed hz now tg b) b) \<and>
         (bps_fits hz now (renewed hz now tg b) b (bio_data_dir b) \<and>
          bps_fits hz now (renewed hz now tg b) b RANDW \<and>
          iops_fits hz now (renewed hz now tg b) (bio_data_dir b) \<and>
          iops_fits hz now (renewed hz now tg b) RANDW \<longrightarrow> ok) \<and>
         (ok \<longrightarrow> iops_fits hz now (renewed hz now tg b) (bio_data_dir b) \<and>
                iops_fits hz now (renewed hz now tg b) RANDW) \<and>
         (ok \<and> bps_block hz now (renewed hz now tg b) b (bio_data_dir b) \<noteq> Inr (Some 0) \<and>
                bps_block hz now (renewed hz now tg b) b RANDW \<noteq> Inr (Some 0)
            \<longrightarrow> bps_fits hz now (renewed hz now tg b) b (bio_data_dir b) \<and>
                bps_fits hz now (renewed hz now tg b) b RANDW)"
proof -
  define tg2 where "tg2 = renewed hz now tg b"
  define BW where "BW = bps_component hz now tg2 b"
  define IW where "IW = iops_component hz now tg2 b"
  define BF where "BF \<longleftrightarrow> bps_fits hz now tg2 b (bio_data_dir b) \<and> bps_fits hz now tg2 b RANDW"
  define IF where "IF \<longleftrightarrow> iops_fits hz now tg2 (bio_data_dir b) \<and> iops_fits hz now tg2 RANDW"
  define NW where "NW \<longleftrightarrow> bps_block hz now tg2 b (bio_data_dir b) \<noteq> Inr (Some 0) \<and>
                         bps_block hz now tg2 b RANDW \<noteq> Inr (Some 0)"
  obtain okb bw where bps: "tg_with_in_bps_limit hz now tg2 b 0 = Inr (okb, bw)"
  proof (cases "tg_with_in_bps_limit hz now tg2 b 0")
    case (Inl f)
    have "tg_may_dispatch hz now tg b = Inl f"
      unfolding tg_may_dispatch_limited [OF lim] Inl [unfolded tg2_def] by simp
    with res show ?thesis by simp
  next
    case (Inr r)
    with that show ?thesis by (cases r) simp
  qed
  from bps_limit_result [OF bps] have bw: "bw = BW" "okb = (BW = 0)"
    by (simp_all add: BW_def)
  have main: "(ok \<longleftrightarrow> BW = 0 \<and> IW = 0) \<and> wait = (if BW \<noteq> 0 then BW else IW) \<and>
              (BF \<and> IF \<longrightarrow> ok) \<and> (ok \<longrightarrow> IF) \<and> (ok \<and> NW \<longrightarrow> BF)"
  proof (cases okb)
    case False
    with bw have nz: "BW \<noteq> 0" by simp
    from False bps have b2: "tg_with_in_bps_limit hz now (renewed hz now tg b) b 0 = Inr (False, bw)"
      by (simp add: tg2_def)
    from may_dispatch_bps_rejects [OF res lim b2] have r: "\<not> ok" "wait = bw"
      by simp_all
    have "\<not> BF"
    proof
      assume BF
      then have "tg_with_in_bps_limit hz now tg2 b 0 = Inr (True, 0)"
        unfolding BF_def by (intro fits_bps_limit) simp_all
      with bps False show False by simp
    qed
    with r nz bw(1) show ?thesis by simp
  next
    case True
    with bw have z: "BW = 0" "bw = 0" by simp_all
    from True bps have b1: "tg_with_in_bps_limit hz now tg2 b 0 = Inr (True, bw)"
      by simp
    then have b2: "tg_with_in_bps_limit hz now (renewed hz now tg b) b 0 = Inr (True, bw)"
      by (simp add: tg2_def)
    from may_dispatch_bps_passes [OF res lim b2] obtain iw where
      iops: "tg_with_in_iops_limit hz now tg2 b 0 = Inr (ok, iw)"
      and w: "wait = (if ok then 0 else max bw iw)"
      unfolding tg2_def by blast
    from iops_limit_result [OF iops] have iw: "iw = IW" "ok = (IW = 0)"
      by (simp_all add: IW_def)
    have w2: "wait = IW"
    proof (cases ok)
      case True
      with w iw show ?thesis by simp
    next
      case False
      with w z(2) iw(1) show ?thesis by simp
    qed
    have f1: "ok \<longrightarrow> IF"
    proof
      assume ok
      with iops have "tg_with_in_iops_limit hz now tg2 b 0 = Inr (True, iw)" by simp
      from iops_limit_fits [OF this] show IF by (simp add: IF_def)
    qed
    have f2: "ok \<and> NW \<longrightarrow> BF"
    proof
      assume "ok \<and> NW"
      then have nw: "bps_block hz now tg2 b (bio_data_dir b) \<noteq> Inr (Some 0)"
        "bps_block hz now tg2 b RANDW \<noteq> Inr (Some 0)" by (simp_all add: NW_def)
      from bps_limit_fits [OF b1 nw] show BF by (simp add: BF_def)
    qed
    have f3: "BF \<and> IF \<longrightarrow> ok"
    proof
      assume "BF \<and> IF"
      then have "tg_with_in_iops_limit hz now tg2 b 0 = Inr (True, 0)"
        unfolding IF_def by (intro fits_iops_limit) simp_all
      with iops show ok by simp
    qed
    have c1: "ok \<longleftrightarrow> BW = 0 \<and> IW = 0" using z(1) iw(2) by simp
    have c2: "wait = (if BW \<noteq> 0 then BW else IW)" using z(1) w2 by simp
    from c1 c2 f3 f1 f2 show ?thesis by (intro conjI)
  qed
  show ?thesis
    using main unfolding BW_def IW_def BF_def IF_def NW_def tg2_def by blast
qed

lemmas disp_eval = tg_may_dispatch_def renewed_def renew_slice_def throtl_slice_used_def
  throtl_start_new_slice_def throtl_extend_slice_def time_defs roundup_def throtl_slice_def
  tg_with_in_bps_limit_def bps_block_def iops_block_def tg_with_in_iops_limit_def
  reject_extend_def bio_data_dir_def ex_disp_tg_def ex_disp_bio_def zero_tg_def
  bps_component_def iops_component_def limit_wait_def unlimited_def Let_def

text \<open>The theorem at work: a read of 50 bytes fits the 100 bytes the first slice allows, but
  1 io/s allows no io in the first 100 ticks, so the wait is the IOPS component, 1001
  ticks.\<close>

theorem tg_may_dispatch_composition_witness:
  "(10::nat) \<le> 1000 \<and> \<not> unlimited ex_disp_tg (ex_disp_bio 50) \<and>
   (\<exists>tg'. tg_may_dispatch 1000 5000 ex_disp_tg (ex_disp_bio 50) = Inr (False, 1001, tg')) \<and>
   bps_component 1000 5000 (renewed 1000 5000 ex_disp_tg (ex_disp_bio 50)) (ex_disp_bio 50) = 0 \<and>
   iops_component 1000 5000 (renewed 1000 5000 ex_disp_tg (ex_disp_bio 50)) (ex_disp_bio 50) = 1001"
proof -
  have h: "(10::nat) \<le> 1000" by simp
  have lim: "\<not> unlimited ex_disp_tg (ex_disp_bio 50)"
    by (simp add: unlimited_def ex_disp_tg_def ex_disp_bio_def bio_data_dir_def)
  have "\<exists>r. tg_may_dispatch 1000 5000 ex_disp_tg (ex_disp_bio 50) = Inr r"
    by (simp add: disp_eval) blast
  then obtain ok wait tg' where
    res: "tg_may_dispatch 1000 5000 ex_disp_tg (ex_disp_bio 50) = Inr (ok, wait, tg')"
    by (metis prod_cases3)
  have bc: "bps_component 1000 5000 (renewed 1000 5000 ex_disp_tg (ex_disp_bio 50)) (ex_disp_bio 50) = 0"
    by (simp add: disp_eval)
  have ic: "iops_component 1000 5000 (renewed 1000 5000 ex_disp_tg (ex_disp_bio 50)) (ex_disp_bio 50) = 1001"
    by (simp add: disp_eval)
  from tg_may_dispatch_composition [OF h lim res] bc ic
  have "\<not> ok" "wait = 1001" by simp_all
  with res h lim bc ic show ?thesis by simp
qed

text \<open>Where the claim fails: a read of 101 bytes exceeds both limits. The BPS wait is 101
  ticks, the IOPS wait 1001 ticks; the function reports 101, not the maximum.\<close>

theorem tg_may_dispatch_counterexample:
  "\<not> unlimited ex_disp_tg (ex_disp_bio 101) \<and>
   (\<exists>tg'. tg_may_dispatch 1000 5000 ex_disp_tg (ex_disp_bio 101) = Inr (False, 101, tg')) \<and>
   bps_component 1000 5000 (renewed 1000 5000 ex_disp_tg (ex_disp_bio 101)) (ex_disp_bio 101) = 101 \<and>
   iops_component 1000 5000 (renewed 1000 5000 ex_disp_tg (ex_disp_bio 101)) (ex_disp_bio 101) = 1001 \<and>
   max (101 :: ulong) 1001 \<noteq> 101"
  by (simp add: disp_eval)

subsection \<open>C4: has_rules\<close>

lemma limit_on_path_step:
  "limit_on_path s rw i \<longleftrightarrow>
     tg_has_limit (tgs s i) rw \<or> (case parent_tg s i of None \<Rightarrow> False | Some p \<Rightarrow> limit_on_path s rw p)"
  by (auto intro: limit_on_path.intros elim: limit_on_path.cases split: option.splits)

lemma limit_on_path_mono:
  assumes "limit_on_path s rw i"
    and "\<And>j. tg_has_limit (tgs s' j) rw = tg_has_limit (tgs s j) rw"
    and "\<And>j. parent_tg s' j = parent_tg s j"
  shows "limit_on_path s' rw i"
  using assms(1)
proof (induction rule: limit_on_path.induct)
  case (own i)
  then show ?case by (simp add: assms(2) limit_on_path.own)
next
  case (up i p)
  then show ?case by (auto intro: limit_on_path.up simp: assms(3))
qed

lemma limit_on_path_cong:
  assumes "\<And>j. tg_has_limit (tgs s' j) rw = tg_has_limit (tgs s j) rw"
    and "\<And>j. parent_tg s' j = parent_tg s j"
  shows "limit_on_path s' rw i = limit_on_path s rw i"
  using limit_on_path_mono [of s rw i s'] limit_on_path_mono [of s' rw i s] assms by auto

lemma parent_tg_upd_tg:
  assumes "\<And>tg. service_queue (f tg) = service_queue tg"
  shows "parent_tg (upd_tg s i f) j = parent_tg s j"
  using assms
  by (auto simp: parent_tg_def sq_to_tg_def upd_tg_def get_sq_def split: option.splits sq_ref.splits)

lemma parent_tg_update [simp]: "parent_tg (tg_update_has_rules s i) j = parent_tg s j"
  by (simp add: tg_update_has_rules_def Let_def parent_tg_upd_tg)

lemma limit_update [simp]:
  "tg_has_limit (tgs (tg_update_has_rules s i) j) rw = tg_has_limit (tgs s j) rw"
  by (simp add: tg_update_has_rules_def Let_def upd_tg_def tg_has_limit_def)

lemma limit_on_path_update [simp]:
  "limit_on_path (tg_update_has_rules s i) rw j = limit_on_path s rw j"
  by (rule limit_on_path_cong) simp_all

lemma has_rules_update_other:
  "j \<noteq> i \<Longrightarrow> has_rules (tgs (tg_update_has_rules s i) j) = has_rules (tgs s j)"
  by (simp add: tg_update_has_rules_def Let_def upd_tg_def)

lemma has_rules_update_self:
  "has_rules (tgs (tg_update_has_rules s i) i) rw \<longleftrightarrow>
     (case parent_tg s i of None \<Rightarrow> False | Some p \<Rightarrow> has_rules (tgs s p) rw) \<or>
     tg_has_limit (tgs s i) rw"
  by (simp add: tg_update_has_rules_def Let_def upd_tg_def parent_tg_def tg_has_limit_def)

lemma rules_ok_update_other:
  "j \<noteq> i \<Longrightarrow> rules_ok (tg_update_has_rules s i) j = rules_ok s j"
  by (simp add: rules_ok_def has_rules_update_other)

lemma rules_ok_update_self:
  assumes "parent_tg s i = None \<or> (\<exists>p. parent_tg s i = Some p \<and> p \<noteq> i \<and> rules_ok s p)"
  shows "rules_ok (tg_update_has_rules s i) i"
  unfolding rules_ok_def
proof
  fix rw
  have l: "limit_on_path s rw i \<longleftrightarrow>
             tg_has_limit (tgs s i) rw \<or>
             (case parent_tg s i of None \<Rightarrow> False | Some p \<Rightarrow> limit_on_path s rw p)"
    by (rule limit_on_path_step)
  from assms show "has_rules (tgs (tg_update_has_rules s i) i) rw \<longleftrightarrow>
      limit_on_path (tg_update_has_rules s i) rw i"
  proof
    assume n: "parent_tg s i = None"
    with l have "limit_on_path s rw i \<longleftrightarrow> tg_has_limit (tgs s i) rw" by simp
    with n show ?thesis by (simp add: has_rules_update_self)
  next
    assume "\<exists>p. parent_tg s i = Some p \<and> p \<noteq> i \<and> rules_ok s p"
    then obtain p where p: "parent_tg s i = Some p" "rules_ok s p" by blast
    with l have "limit_on_path s rw i \<longleftrightarrow> tg_has_limit (tgs s i) rw \<or> limit_on_path s rw p"
      by simp
    with p show ?thesis by (auto simp: has_rules_update_self rules_ok_def)
  qed
qed

lemma has_rules_walk_inv:
  assumes "\<forall>x\<in>D. rules_ok s x"
    and "distinct xs" and "set xs \<inter> D = {}"
    and "\<forall>k<length xs. parent_tg s (xs ! k) = None \<or>
           (\<exists>p\<in>D \<union> set (take k xs). parent_tg s (xs ! k) = Some p)"
  shows "\<forall>x\<in>D \<union> set xs. rules_ok (has_rules_walk s xs) x"
  using assms
proof (induction xs arbitrary: s D)
  case Nil
  then show ?case by simp
next
  case (Cons y ys)
  let ?s1 = "tg_update_has_rules s y"
  have y: "y \<notin> D" "y \<notin> set ys" using Cons.prems by auto
  have py: "parent_tg s y = None \<or> (\<exists>p\<in>D. parent_tg s y = Some p)"
    using Cons.prems(4) [rule_format, of 0] by simp
  then have "parent_tg s y = None \<or> (\<exists>p. parent_tg s y = Some p \<and> p \<noteq> y \<and> rules_ok s p)"
    using Cons.prems(1) y(1) by auto
  then have oky: "rules_ok ?s1 y" by (rule rules_ok_update_self)
  have okD: "\<forall>x\<in>D \<union> {y}. rules_ok ?s1 x"
  proof
    fix x assume x: "x \<in> D \<union> {y}"
    show "rules_ok ?s1 x"
    proof (cases "x = y")
      case True
      with oky show ?thesis by simp
    next
      case False
      with x Cons.prems(1) show ?thesis by (simp add: rules_ok_update_other)
    qed
  qed
  have pre: "\<forall>k<length ys. parent_tg ?s1 (ys ! k) = None \<or>
           (\<exists>p\<in>(D \<union> {y}) \<union> set (take k ys). parent_tg ?s1 (ys ! k) = Some p)"
  proof (intro allI impI)
    fix k assume "k < length ys"
    then have "Suc k < length (y # ys)" by simp
    from Cons.prems(4) [rule_format, OF this] show
      "parent_tg ?s1 (ys ! k) = None \<or>
       (\<exists>p\<in>(D \<union> {y}) \<union> set (take k ys). parent_tg ?s1 (ys ! k) = Some p)"
      by auto
  qed
  have "\<forall>x\<in>(D \<union> {y}) \<union> set ys. rules_ok (has_rules_walk ?s1 ys) x"
    using Cons.prems(2,3) y by (intro Cons.IH okD pre) auto
  then show ?case by simp
qed

lemma rules_ok_walk_other:
  "x \<notin> set xs \<Longrightarrow> rules_ok (has_rules_walk s xs) x = rules_ok s x"
  by (induction xs arbitrary: s) (auto simp: rules_ok_update_other)

lemma members_copy_own_ok:
  assumes "\<forall>x\<in>D. own_ok s x"
  shows "\<forall>x\<in>D \<union> m_tg ` set ms. own_ok (fd_members_copy_rules s h ms) x"
  using assms
proof (induction ms arbitrary: s D)
  case Nil
  then show ?case by simp
next
  case (Cons m ms)
  let ?s1 = "upd_tg s (m_tg m) (\<lambda>tg. tg\<lparr>bps := bps (tgs s h), iops := iops (tgs s h),
           has_rules := (\<lambda>rw. bps (tgs s h) rw \<noteq> - 1 \<or> iops (tgs s h) rw \<noteq> - 1)\<rparr>)"
  have "\<forall>x\<in>D \<union> {m_tg m}. own_ok ?s1 x"
    using Cons.prems by (auto simp: own_ok_def upd_tg_def tg_has_limit_def)
  from Cons.IH [OF this] show ?case by simp
qed

lemma parent_tg_members_copy [simp]:
  "parent_tg (fd_members_copy_rules s h ms) j = parent_tg s j"
  by (induction ms arbitrary: s) (simp_all add: parent_tg_upd_tg)

lemma fd_update_own_ok:
  "\<forall>x\<in>insert (fd_tg fd) (m_tg ` set (fd_members fd)).
      own_ok (tg_fd_update_has_rules_recursively s fd) x"
proof -
  let ?s0 = "upd_tg s (fd_tg fd)
      (\<lambda>tg. tg\<lparr>has_rules := (\<lambda>rw. bps tg rw \<noteq> - 1 \<or> iops tg rw \<noteq> - 1)\<rparr>)"
  have "\<forall>x\<in>{fd_tg fd}. own_ok ?s0 x"
    by (simp add: own_ok_def upd_tg_def tg_has_limit_def)
  from members_copy_own_ok [OF this, of "fd_members fd" "fd_tg fd"] show ?thesis
    by (simp add: tg_fd_update_has_rules_recursively_def)
qed

lemma parent_tg_fd_update [simp]:
  "parent_tg (tg_fd_update_has_rules_recursively s fd) j = parent_tg s j"
  by (simp add: tg_fd_update_has_rules_recursively_def parent_tg_upd_tg)

lemma own_ok_rules_ok:
  assumes "own_ok s i" "parent_tg s i = None"
  shows "rules_ok s i"
  using assms limit_on_path_step [of s _ i] by (simp add: own_ok_def rules_ok_def)

text \<open>
  C4. After the recomputation paths have run, \<open>has_rules[rw]\<close> of a group is true iff the
  group or an ancestor on its path to the device root has a finite bps or iops limit for
  \<open>rw\<close>. First conjunct: the walk of \<open>tg_set_conf\<close> (and, with a one-element list, the
  call of \<open>throtl_pd_online\<close>) over the groups \<open>r # rest\<close>, each of which has no parent
  group or one that was visited before it, where the parent of \<open>r\<close>, if any, lies outside
  the walk and satisfies the claim already. Every visited group satisfies the claim
  afterwards, and every other group that satisfied it still does. Second conjunct:
  \<open>tg_fd_update_has_rules_recursively\<close> for a fake device whose header and member groups
  have no parent group; header and members satisfy the claim afterwards.
\<close>

theorem has_rules_recomputed:
  "(distinct (r # rest) \<and>
    (parent_tg s r = None \<or>
       (\<exists>p. parent_tg s r = Some p \<and> p \<notin> set (r # rest) \<and> rules_ok s p)) \<and>
    (\<forall>k<length rest. parent_tg s (rest ! k) = None \<or>
       (\<exists>p\<in>set (r # take k rest). parent_tg s (rest ! k) = Some p))
    \<longrightarrow> (\<forall>x\<in>set (r # rest). \<forall>rw.
           has_rules (tgs (has_rules_walk s (r # rest)) x) rw \<longleftrightarrow>
           limit_on_path (has_rules_walk s (r # rest)) rw x) \<and>
        (\<forall>x. x \<notin> set (r # rest) \<and> rules_ok s x \<longrightarrow> rules_ok (has_rules_walk s (r # rest)) x)) \<and>
   ((\<forall>x\<in>insert (fd_tg fd) (m_tg ` set (fd_members fd)). parent_tg s x = None)
    \<longrightarrow> (\<forall>x\<in>insert (fd_tg fd) (m_tg ` set (fd_members fd)). \<forall>rw.
           has_rules (tgs (tg_fd_update_has_rules_recursively s fd) x) rw \<longleftrightarrow>
           limit_on_path (tg_fd_update_has_rules_recursively s fd) rw x))"
proof (intro conjI impI)
  assume a: "distinct (r # rest) \<and>
    (parent_tg s r = None \<or>
       (\<exists>p. parent_tg s r = Some p \<and> p \<notin> set (r # rest) \<and> rules_ok s p)) \<and>
    (\<forall>k<length rest. parent_tg s (rest ! k) = None \<or>
       (\<exists>p\<in>set (r # take k rest). parent_tg s (rest ! k) = Some p))"
  define D where "D = (case parent_tg s r of None \<Rightarrow> {} | Some p \<Rightarrow> {p})"
  have D1: "\<forall>x\<in>D. rules_ok s x"
    using a by (auto simp: D_def split: option.splits)
  have D2: "set (r # rest) \<inter> D = {}"
    using a by (auto simp: D_def split: option.splits)
  have D3: "\<forall>k<length (r # rest). parent_tg s ((r # rest) ! k) = None \<or>
           (\<exists>p\<in>D \<union> set (take k (r # rest)). parent_tg s ((r # rest) ! k) = Some p)"
  proof (intro allI impI)
    fix k assume k: "k < length (r # rest)"
    show "parent_tg s ((r # rest) ! k) = None \<or>
           (\<exists>p\<in>D \<union> set (take k (r # rest)). parent_tg s ((r # rest) ! k) = Some p)"
    proof (cases k)
      case 0
      then show ?thesis by (cases "parent_tg s r") (simp_all add: D_def)
    next
      case (Suc j)
      with k have "j < length rest" by simp
      with a have "parent_tg s (rest ! j) = None \<or>
         (\<exists>p\<in>set (r # take j rest). parent_tg s (rest ! j) = Some p)" by blast
      with Suc show ?thesis by auto
    qed
  qed
  from a have dist: "distinct (r # rest)" by blast
  from has_rules_walk_inv [OF D1 dist D2 D3]
  show "\<forall>x\<in>set (r # rest). \<forall>rw.
           has_rules (tgs (has_rules_walk s (r # rest)) x) rw \<longleftrightarrow>
           limit_on_path (has_rules_walk s (r # rest)) rw x"
    by (simp add: rules_ok_def)
  show "\<forall>x. x \<notin> set (r # rest) \<and> rules_ok s x \<longrightarrow> rules_ok (has_rules_walk s (r # rest)) x"
    using rules_ok_walk_other [of _ "r # rest" s] by blast
next
  assume p: "\<forall>x\<in>insert (fd_tg fd) (m_tg ` set (fd_members fd)). parent_tg s x = None"
  show "\<forall>x\<in>insert (fd_tg fd) (m_tg ` set (fd_members fd)). \<forall>rw.
           has_rules (tgs (tg_fd_update_has_rules_recursively s fd) x) rw \<longleftrightarrow>
           limit_on_path (tg_fd_update_has_rules_recursively s fd) rw x"
  proof
    fix x assume x: "x \<in> insert (fd_tg fd) (m_tg ` set (fd_members fd))"
    with fd_update_own_ok have "own_ok (tg_fd_update_has_rules_recursively s fd) x" by blast
    moreover from p x have "parent_tg s x = None" by (rule bspec)
    then have "parent_tg (tg_fd_update_has_rules_recursively s fd) x = None" by simp
    ultimately have "rules_ok (tg_fd_update_has_rules_recursively s fd) x"
      by (rule own_ok_rules_ok)
    then show "\<forall>rw. has_rules (tgs (tg_fd_update_has_rules_recursively s fd) x) rw \<longleftrightarrow>
           limit_on_path (tg_fd_update_has_rules_recursively s fd) rw x"
      by (simp add: rules_ok_def)
  qed
qed

lemmas rules_eval = ex_rules_def ex_rules_fd_def zero_state_def zero_tg_def zero_sq_def zero_td_def
  parent_tg_def sq_to_tg_def get_sq_def tg_update_has_rules_def upd_tg_def
  tg_fd_update_has_rules_recursively_def Let_def

text \<open>The theorem at work: after the walk over groups 1 and 2 the child has rules for reads
  (its parent's limit) and none for writes; after the fake-device update the member has
  rules for writes (the header's limit, copied).\<close>

theorem has_rules_recomputed_witness:
  "distinct [1, 2 :: nat] \<and> parent_tg ex_rules 1 = None \<and> parent_tg ex_rules 2 = Some 1 \<and>
   has_rules (tgs (has_rules_walk ex_rules [1, 2]) 2) READ \<and>
   limit_on_path (has_rules_walk ex_rules [1, 2]) READ 2 \<and>
   \<not> has_rules (tgs (has_rules_walk ex_rules [1, 2]) 2) WRITE \<and>
   \<not> limit_on_path (has_rules_walk ex_rules [1, 2]) WRITE 2 \<and>
   parent_tg ex_rules 10 = None \<and> parent_tg ex_rules 11 = None \<and>
   has_rules (tgs (tg_fd_update_has_rules_recursively ex_rules ex_rules_fd) 11) WRITE \<and>
   limit_on_path (tg_fd_update_has_rules_recursively ex_rules ex_rules_fd) WRITE 11"
proof -
  have p: "parent_tg ex_rules 1 = None" "parent_tg ex_rules 2 = Some 1"
    "parent_tg ex_rules 10 = None" "parent_tg ex_rules 11 = None"
    by (simp_all add: rules_eval)
  have h: "has_rules (tgs (has_rules_walk ex_rules [1, 2]) 2) READ"
    "\<not> has_rules (tgs (has_rules_walk ex_rules [1, 2]) 2) WRITE"
    "has_rules (tgs (tg_fd_update_has_rules_recursively ex_rules ex_rules_fd) 11) WRITE"
    by (simp_all add: rules_eval)
  have pre: "distinct [1, 2 :: nat] \<and>
    (parent_tg ex_rules 1 = None \<or>
       (\<exists>p. parent_tg ex_rules 1 = Some p \<and> p \<notin> set [1, 2] \<and> rules_ok ex_rules p)) \<and>
    (\<forall>k<length [2 :: nat]. parent_tg ex_rules ([2] ! k) = None \<or>
       (\<exists>p\<in>set (1 # take k [2]). parent_tg ex_rules ([2] ! k) = Some p))"
    using p by simp
  have fdp: "\<forall>x\<in>insert (fd_tg ex_rules_fd) (m_tg ` set (fd_members ex_rules_fd)).
      parent_tg ex_rules x = None"
    using p by (simp add: ex_rules_fd_def)
  from has_rules_recomputed [of 1 "[2]" ex_rules ex_rules_fd] pre fdp
  have w: "\<forall>x\<in>set [1, 2]. \<forall>rw.
           has_rules (tgs (has_rules_walk ex_rules [1, 2]) x) rw \<longleftrightarrow>
           limit_on_path (has_rules_walk ex_rules [1, 2]) rw x"
    and f: "\<forall>x\<in>insert (fd_tg ex_rules_fd) (m_tg ` set (fd_members ex_rules_fd)). \<forall>rw.
           has_rules (tgs (tg_fd_update_has_rules_recursively ex_rules ex_rules_fd) x) rw \<longleftrightarrow>
           limit_on_path (tg_fd_update_has_rules_recursively ex_rules ex_rules_fd) rw x"
    by blast+
  from w have w2: "\<And>rw. has_rules (tgs (has_rules_walk ex_rules [1, 2]) 2) rw \<longleftrightarrow>
           limit_on_path (has_rules_walk ex_rules [1, 2]) rw 2" by simp
  from f have f2: "\<And>rw. has_rules (tgs (tg_fd_update_has_rules_recursively ex_rules ex_rules_fd) 11) rw \<longleftrightarrow>
           limit_on_path (tg_fd_update_has_rules_recursively ex_rules ex_rules_fd) rw 11"
    by (simp add: ex_rules_fd_def)
  from p h w2 f2 show ?thesis by simp
qed

subsection \<open>C9: the throttled marker\<close>

lemma throtl_out_False:
  "throtl_out s0 bp b = (False, s') \<Longrightarrow> REQ_THROTTLED \<notin> bi_rw (bios s' bp)"
  by (auto simp: throtl_out_def split: if_splits)

lemma fake_device_check_out:
  assumes "fake_device_check hz now env s q bp qn = Inr (b, s')"
  shows "\<exists>s0. throtl_out s0 bp b = (b, s')"
  using assms
  by (auto simp: fake_device_check_def throtl_out_def
      split: list.splits sum.splits option.splits prod.splits if_splits)

lemma throtl_out_any:
  "throtl_out s0 bp c = (b, s') \<Longrightarrow> \<exists>s0. throtl_out s0 bp b = (b, s')"
  by (auto simp: throtl_out_def split: if_splits)

lemma blk_throtl_bio_out:
  assumes "blk_throtl_bio fuel hz now env s q bp = Inr (b, s')"
  shows "\<exists>s0. throtl_out s0 bp b = (b, s')"
  using assms unfolding blk_throtl_bio_def Let_def
  by (auto split: if_splits option.splits sum.splits prod.splits
      intro: throtl_out_any dest!: fake_device_check_out)

text \<open>
  C9. A bio that enters \<open>blk_throtl_bio\<close> with REQ_THROTTLED set makes it return false, for
  every amount of fuel, with every group and every \<open>throtl_data\<close> as they were; the only
  change is that the bio's marker is cleared. And whenever \<open>blk_throtl_bio\<close> returns
  false, the bio's marker is clear afterwards.
\<close>

theorem blk_throtl_bio_marker:
  "(REQ_THROTTLED \<in> bi_rw (bios s bp) \<longrightarrow>
      (\<exists>s'. blk_throtl_bio fuel hz now env s q bp = Inr (False, s') \<and>
            tgs s' = tgs s \<and> tds s' = tds s \<and>
            bios s' = (bios s)(bp := (bios s bp)\<lparr>bi_rw := bi_rw (bios s bp) - {REQ_THROTTLED}\<rparr>))) \<and>
   (\<forall>s'. blk_throtl_bio fuel hz now env s q bp = Inr (False, s') \<longrightarrow>
      REQ_THROTTLED \<notin> bi_rw (bios s' bp))"
proof (intro conjI impI allI)
  assume "REQ_THROTTLED \<in> bi_rw (bios s bp)"
  then show "\<exists>s'. blk_throtl_bio fuel hz now env s q bp = Inr (False, s') \<and>
            tgs s' = tgs s \<and> tds s' = tds s \<and>
            bios s' = (bios s)(bp := (bios s bp)\<lparr>bi_rw := bi_rw (bios s bp) - {REQ_THROTTLED}\<rparr>)"
    by (simp add: blk_throtl_bio_def throtl_out_def)
next
  fix s' assume "blk_throtl_bio fuel hz now env s q bp = Inr (False, s')"
  from blk_throtl_bio_out [OF this] obtain s0 where "throtl_out s0 bp False = (False, s')" by blast
  then show "REQ_THROTTLED \<notin> bi_rw (bios s' bp)" by (rule throtl_out_False)
qed

text \<open>The theorem at work: bio 6 arrives marked and leaves unmarked, nothing else
  changes.\<close>

theorem blk_throtl_bio_marker_witness:
  "REQ_THROTTLED \<in> bi_rw (bios ex_bio_state 6) \<and>
   (\<exists>s'. blk_throtl_bio 0 1000 5000 (ex_env None) ex_bio_state 0 6 = Inr (False, s') \<and>
         tgs s' = tgs ex_bio_state \<and> tds s' = tds ex_bio_state \<and>
         REQ_THROTTLED \<notin> bi_rw (bios s' 6))"
proof -
  have h: "REQ_THROTTLED \<in> bi_rw (bios ex_bio_state 6)"
    by (simp add: ex_bio_state_def)
  with blk_throtl_bio_marker [of ex_bio_state 6 0 1000 5000 "ex_env None" 0]
  obtain s' where r: "blk_throtl_bio 0 1000 5000 (ex_env None) ex_bio_state 0 6 = Inr (False, s')"
    and f: "tgs s' = tgs ex_bio_state" "tds s' = tds ex_bio_state"
    by blast
  from blk_throtl_bio_marker [of ex_bio_state 6 0 1000 5000 "ex_env None" 0] r
  have "REQ_THROTTLED \<notin> bi_rw (bios s' 6)" by blast
  with h r f show ?thesis by blast
qed

subsection \<open>C1: where an out-of-limit bio is queued\<close>

lemma ex_may_dispatch:
  "\<exists>tg'. tg_may_dispatch 1000 5000 (tgs ex_bio_state 1) (bios ex_bio_state 5) = Inr (False, 4096, tg')"
  by (simp add: ex_bio_state_def zero_state_def zero_tg_def zero_bio_def tg_may_dispatch_def
      renew_slice_def throtl_slice_used_def
      throtl_start_new_slice_def throtl_extend_slice_def time_defs roundup_def throtl_slice_def
      tg_with_in_bps_limit_def bps_block_def iops_block_def tg_with_in_iops_limit_def
      reject_extend_def bio_data_dir_def Let_def)

lemmas bio_eval = blk_throtl_bio_def climb_tgs.simps queue_out_of_limit_def throtl_add_bio_fd_tg_def
  throtl_out_def charge_fds.simps mark_was_empty_def inc_nr_queued_def
  throtl_qnode_add_bio_withoutblkg_def link_qnode_tail_def throtl_enqueue_tg_def
  throtl_enqueue_tg_always_def get_sq_def set_sq_def get_qn_def set_qn_def upd_tg_def
  ex_env_def ex_other_fd_def ex_bio_state_def zero_state_def zero_tg_def zero_bio_def zero_sq_def
  zero_td_def zero_qn_def tg_may_dispatch_def
  renew_slice_def throtl_slice_used_def
  throtl_start_new_slice_def throtl_extend_slice_def time_defs roundup_def throtl_slice_def
  tg_with_in_bps_limit_def bps_block_def iops_block_def tg_with_in_iops_limit_def
  reject_extend_def bio_data_dir_def Let_def

text \<open>
  C1 (the code at a failing input). Bio 5 exceeds the read limit of group 1:
  \<open>tg_may_dispatch\<close> rejects it. The claim wants it queued on group 1 and true returned.
  The code calls \<open>throtl_add_bio_fd_tg(bio, fake_d, q)\<close> with the local \<open>fake_d\<close>, which
  nothing has assigned on this path. If \<open>fake_d\<close> cannot be dereferenced the kernel
  faults; if it happens to point at a fake device that holds the queue, the bio is
  appended to that device's member group 11 and group 1 queues nothing.
\<close>

theorem blk_throtl_bio_queues_on_fake_device:
  "(\<exists>tg'. tg_may_dispatch 1000 5000 (tgs ex_bio_state 1) (bios ex_bio_state 5) =
            Inr (False, 4096, tg')) \<and>
   blk_throtl_bio (Suc 0) 1000 5000 (ex_env None) ex_bio_state 0 5 = Inl NullDeref \<and>
   (\<exists>s'. blk_throtl_bio (Suc 0) 1000 5000 (ex_env (Some ex_other_fd)) ex_bio_state 0 5 =
            Inr (True, s') \<and>
         queued (service_queue (tgs s' 1)) READ = [] \<and>
         qn_bios (qnode_on_self (tgs s' 1) READ) = [] \<and>
         queued (service_queue (tgs s' 11)) READ = [(11, OnSelf, READ)] \<and>
         qn_bios (qnode_on_self (tgs s' 11) READ) = [5])"
proof (intro conjI)
  show "\<exists>tg'. tg_may_dispatch 1000 5000 (tgs ex_bio_state 1) (bios ex_bio_state 5) =
            Inr (False, 4096, tg')"
    by (rule ex_may_dispatch)
  show "blk_throtl_bio (Suc 0) 1000 5000 (ex_env None) ex_bio_state 0 5 = Inl NullDeref"
    by (simp add: bio_eval)
  show "\<exists>s'. blk_throtl_bio (Suc 0) 1000 5000 (ex_env (Some ex_other_fd)) ex_bio_state 0 5 =
            Inr (True, s') \<and>
         queued (service_queue (tgs s' 1)) READ = [] \<and>
         qn_bios (qnode_on_self (tgs s' 1) READ) = [] \<and>
         queued (service_queue (tgs s' 11)) READ = [(11, OnSelf, READ)] \<and>
         qn_bios (qnode_on_self (tgs s' 11) READ) = [5]"
    by (simp add: bio_eval)
qed

end
